theory Spec2Isabelle
  imports Main
begin

section \<open>XML elements and addresses used by the task layer\<close>

text \<open>
  The task layer of the XMPP library (\<^verbatim>\<open>xmpp_task.cpp\<close>, \<^verbatim>\<open>xmpp_task.h\<close>,
  \<^verbatim>\<open>xmpp_stanza.h\<close>) works on DOM elements, JIDs and a client object whose classes are
  declared elsewhere. Only what the task code reads from them is modelled.
\<close>

text \<open>A DOM element: tag name, attributes, child elements in document order.\<close>

datatype element =
  Element (tagName: string) (attrs: "(string \<times> string) list") (childElements: "element list")

definition attribute :: "element \<Rightarrow> string \<Rightarrow> string" where
  \<comment> \<open>\<^verbatim>\<open>QDomElement::attribute(name)\<close>: the value, or the empty string when absent.\<close>
  "attribute e name = (case map_of (attrs e) name of Some v \<Rightarrow> v | None \<Rightarrow> [])"

definition findSubTag :: "element \<Rightarrow> string \<Rightarrow> element option" where
  \<comment> \<open>Modelled from the spec: \<^verbatim>\<open>findSubTag(e, name, &found)\<close> of the XML helpers locates
      a child of \<open>e\<close> with the given tag name (the first one); \<open>None\<close> is \<open>found = false\<close>.\<close>
  "findSubTag e name = find (\<lambda>i. tagName i = name) (childElements e)"

definition queryNS :: "element \<Rightarrow> string" where
  \<comment> \<open>Modelled from the spec: the first query-namespace found in \<open>x\<close>, that is the
      \<^verbatim>\<open>xmlns\<close> attribute of its first \<^verbatim>\<open>query\<close> child; empty when there is none.\<close>
  "queryNS e = (case findSubTag e ''query'' of Some q \<Rightarrow> attribute q ''xmlns'' | None \<Rightarrow> [])"

text \<open>
  Modelled from the spec: the JID value type (node, domain, optional resource suffix) with
  exact-match comparison, bare-address comparison and domain extraction. String preparation
  and validation of the parts are not modelled; an address without a domain is the empty JID.
\<close>

record jid =
  j_node :: string
  j_domain :: string
  j_resource :: string

definition Jid :: "string \<Rightarrow> jid" where
  \<comment> \<open>Modelled from the spec: \<^verbatim>\<open>Jid(const QString &)\<close>, reading \<^verbatim>\<open>node@domain/resource\<close>.\<close>
  "Jid s =
     (let rest = takeWhile (\<lambda>c. c \<noteq> CHR ''/'') s;
          res = drop (Suc (length rest)) s;
          hasNode = (CHR ''@'' \<in> set rest);
          n = (if hasNode then takeWhile (\<lambda>c. c \<noteq> CHR ''@'') rest else []);
          d = (if hasNode then drop (Suc (length n)) rest else rest)
      in if d = [] then \<lparr>j_node = [], j_domain = [], j_resource = []\<rparr>
         else \<lparr>j_node = n, j_domain = d, j_resource = res\<rparr>)"

definition isEmpty :: "jid \<Rightarrow> bool" where
  \<comment> \<open>Modelled from the spec: the address is empty.\<close>
  "isEmpty j = (j_node j = [] \<and> j_domain j = [] \<and> j_resource j = [])"

definition domain :: "jid \<Rightarrow> string" where
  \<comment> \<open>Modelled from the spec: domain extraction.\<close>
  "domain j = j_domain j"

definition bareJid :: "jid \<Rightarrow> jid" where
  \<comment> \<open>Modelled from the spec: the bare address, the same JID without its resource.\<close>
  "bareJid j = j\<lparr>j_resource := []\<rparr>"

definition compare :: "jid \<Rightarrow> jid \<Rightarrow> bool \<Rightarrow> bool" where
  \<comment> \<open>Modelled from the spec: \<^verbatim>\<open>a.compare(b, compareRes)\<close> is the exact-match comparison
      when \<open>compareRes\<close> holds (the default), and the bare-address comparison, which ignores
      the resources, when it does not.\<close>
  "compare a b compareRes =
     (j_node a = j_node b \<and> j_domain a = j_domain b \<and> (compareRes \<longrightarrow> j_resource a = j_resource b))"

text \<open>
  Modelled from the spec: the client as the task code consults it. \<open>c_stream\<close> tells whether
  the client has a stream object (the pointer behind \<^verbatim>\<open>client()->stream()\<close> is not null).
\<close>

record client =
  c_jid :: jid
  c_host :: jid
  c_streamBaseNS :: string
  c_stream :: bool

section \<open>Stanza errors\<close>

text \<open>The enumerations of \<^verbatim>\<open>Stanza::Error\<close> with their numeric values.\<close>

datatype ErrorType = Cancel | Continue | Modify | Auth | Wait

fun ErrorType_value :: "ErrorType \<Rightarrow> int" where
  "ErrorType_value Cancel = 1"
| "ErrorType_value Continue = 2"
| "ErrorType_value Modify = 3"
| "ErrorType_value Auth = 4"
| "ErrorType_value Wait = 5"

datatype ErrorCond =
    BadRequest | Conflict | FeatureNotImplemented | Forbidden | Gone | InternalServerError
  | ItemNotFound | JidMalformed | NotAcceptable | NotAllowed | NotAuthorized | PaymentRequired
  | RecipientUnavailable | Redirect | RegistrationRequired | RemoteServerNotFound
  | RemoteServerTimeout | ResourceConstraint | ServiceUnavailable | SubscriptionRequired
  | UndefinedCondition | UnexpectedRequest

fun ErrorCond_value :: "ErrorCond \<Rightarrow> int" where
  "ErrorCond_value BadRequest = 1"
| "ErrorCond_value Conflict = 2"
| "ErrorCond_value FeatureNotImplemented = 3"
| "ErrorCond_value Forbidden = 4"
| "ErrorCond_value Gone = 5"
| "ErrorCond_value InternalServerError = 6"
| "ErrorCond_value ItemNotFound = 7"
| "ErrorCond_value JidMalformed = 8"
| "ErrorCond_value NotAcceptable = 9"
| "ErrorCond_value NotAllowed = 10"
| "ErrorCond_value NotAuthorized = 11"
| "ErrorCond_value PaymentRequired = 12"
| "ErrorCond_value RecipientUnavailable = 13"
| "ErrorCond_value Redirect = 14"
| "ErrorCond_value RegistrationRequired = 15"
| "ErrorCond_value RemoteServerNotFound = 16"
| "ErrorCond_value RemoteServerTimeout = 17"
| "ErrorCond_value ResourceConstraint = 18"
| "ErrorCond_value ServiceUnavailable = 19"
| "ErrorCond_value SubscriptionRequired = 20"
| "ErrorCond_value UndefinedCondition = 21"
| "ErrorCond_value UnexpectedRequest = 22"

text \<open>The class \<^verbatim>\<open>Stanza::Error\<close>: its public fields are plain \<^verbatim>\<open>int\<close>s.\<close>

record Error =
  err_type :: int
  err_condition :: int
  err_text :: string
  err_appSpec :: "element option"
  originalCode :: int

definition Error_new :: "int \<Rightarrow> int \<Rightarrow> string \<Rightarrow> element option \<Rightarrow> Error" where
  \<comment> \<open>Modelled from the spec: the constructor \<^verbatim>\<open>Error(type, condition, text, appSpec)\<close>,
      declared in the header; a value built from type and condition carries no legacy code.\<close>
  "Error_new ty cond txt app =
     \<lparr>err_type = ty, err_condition = cond, err_text = txt, err_appSpec = app, originalCode = 0\<rparr>"

definition Error_default :: Error where
  \<comment> \<open>\<^verbatim>\<open>new Stanza::Error()\<close>: all constructor arguments defaulted.\<close>
  "Error_default = Error_new (ErrorType_value Cancel) (ErrorCond_value UndefinedCondition) [] None"

section \<open>The task and its private state\<close>

text \<open>
  What a task does to the world outside its private data, in the order it happens: the
  \<^verbatim>\<open>finished()\<close> signal, the calls \<^verbatim>\<open>SafeDelete::deleteSingle(this)\<close> and
  \<^verbatim>\<open>deleteLater()\<close>, the warning printed by \<^verbatim>\<open>go\<close>, and the call of the virtual
  send hook \<^verbatim>\<open>onGo()\<close>. Modelled from the spec: \<^verbatim>\<open>SafeDelete::deleteSingle\<close>, whose
  body is not among the sources, is the destruction of the task, and \<^verbatim>\<open>deleteLater()\<close>
  schedules it; the model records the calls.
\<close>

datatype event = Finished | DeleteSingle | DeleteLater | Warning | OnGo

text \<open>
  \<^verbatim>\<open>Task::TaskPrivate\<close> (fields \<open>d_\<close>\<dots>), together with the number of armed zero-delay
  timers whose target is the slot \<^verbatim>\<open>done()\<close> and the trace of events so far.
\<close>

record task =
  d_id :: string
  d_success :: bool
  d_statusCode :: int
  d_statusString :: string
  d_client :: "client option"
  d_insig :: bool
  d_deleteme :: bool
  d_autoDelete :: bool
  d_done :: bool
  d_error :: "Error option"
  timers :: nat
  trace :: "event list"

text \<open>
  The methods of a task that other code can invoke: subclass code, the client, and the slots
  connected to \<^verbatim>\<open>finished()\<close>.
\<close>

datatype call =
    Go bool
  | SafeDelete
  | OnDisconnect
  | SetSuccess int string
  | SetErrorElem element
  | SetError int string
  | ClientDisconnected
  | Done

text \<open>
  The surroundings of a task that the sources do not contain: the two XML helpers used by
  \<^verbatim>\<open>setError(const QDomElement &)\<close> (\<^verbatim>\<open>getErrorFromElement\<close> updates the code and the
  string it is given, \<^verbatim>\<open>Stanza::Error::fromXml\<close> updates an error object), and the calls
  that the slots connected to \<^verbatim>\<open>finished()\<close> make on the task while the signal is
  delivered. Every statement below holds for all of them.
\<close>

record ctx =
  getErrorFromElement :: "element \<Rightarrow> string \<Rightarrow> int \<times> string \<Rightarrow> int \<times> string"
  fromXml :: "element \<Rightarrow> string \<Rightarrow> Error \<Rightarrow> Error"
  slots :: "call list"

definition emit :: "event \<Rightarrow> task \<Rightarrow> task" where
  "emit ev t = t\<lparr>trace := trace t @ [ev]\<rparr>"

definition init :: "int \<Rightarrow> task" where
  \<comment> \<open>\<^verbatim>\<open>Task::init()\<close>; \<^verbatim>\<open>statusCode\<close> is left uninitialised, \<open>junk\<close> is the value it
      happens to hold.\<close>
  "init junk =
     \<lparr>d_id = [], d_success = False, d_statusCode = junk, d_statusString = [], d_client = None,
      d_insig = False, d_deleteme = False, d_autoDelete = False, d_done = False, d_error = None,
      timers = 0, trace = []\<rparr>"

definition Task_root :: "client option \<Rightarrow> int \<Rightarrow> task" where
  \<comment> \<open>The constructor \<^verbatim>\<open>Task(Client *parent, bool)\<close>.\<close>
  "Task_root parent junk = (init junk)\<lparr>d_client := parent\<rparr>"

definition success :: "task \<Rightarrow> bool" where
  "success t = d_success t"

definition statusCode :: "task \<Rightarrow> int" where
  "statusCode t = d_statusCode t"

definition statusString :: "task \<Rightarrow> string" where
  "statusString t = d_statusString t"

definition onGo :: "task \<Rightarrow> task" where
  \<comment> \<open>The virtual send hook; the base body is empty. The call itself is recorded.\<close>
  "onGo t = emit OnGo t"

definition go :: "bool \<Rightarrow> task \<Rightarrow> task" where
  "go autoDelete t =
     (let t = t\<lparr>d_autoDelete := autoDelete\<rparr>
      in if (case d_client t of None \<Rightarrow> True | Some c \<Rightarrow> \<not> c_stream c)
         then (let t = emit Warning t in if autoDelete then emit DeleteLater t else t)
         else onGo t)"

definition safeDelete :: "task \<Rightarrow> task" where
  "safeDelete t =
     (if d_deleteme t then t
      else let t = t\<lparr>d_deleteme := True\<rparr>
           in if \<not> d_insig t then emit DeleteSingle t else t)"

definition ErrDisc :: int where
  \<comment> \<open>\<^verbatim>\<open>enum { ErrDisc }\<close>: the first enumerator.\<close>
  "ErrDisc = 0"

definition tr :: "string \<Rightarrow> string" where
  \<comment> \<open>\<^verbatim>\<open>QObject::tr\<close> with no translation installed: the source text.\<close>
  "tr s = s"

definition onDisconnect :: "task \<Rightarrow> task" where
  \<comment> \<open>\<^verbatim>\<open>QTimer::singleShot(0, this, SLOT(done()))\<close> arms one more timer.\<close>
  "onDisconnect t =
     (if \<not> d_done t
      then (let t = t\<lparr>d_success := False\<rparr>;
                t = t\<lparr>d_statusCode := ErrDisc\<rparr>;
                t = t\<lparr>d_statusString := tr ''Disconnected''\<rparr>
            in t\<lparr>timers := Suc (timers t)\<rparr>)
      else t)"

definition getStanzaErrorFromElement :: "ctx \<Rightarrow> element \<Rightarrow> string \<Rightarrow> Error option" where
  "getStanzaErrorFromElement X e baseNs =
     (case findSubTag e ''error'' of
        None \<Rightarrow> None
      | Some tag \<Rightarrow> Some (fromXml X tag baseNs Error_default))"

definition errorType :: "task \<Rightarrow> int" where
  "errorType t = (case d_error t of Some err \<Rightarrow> err_type err | None \<Rightarrow> 0)"

definition errorCondition :: "task \<Rightarrow> int" where
  "errorCondition t = (case d_error t of Some err \<Rightarrow> err_condition err | None \<Rightarrow> 0)"

text \<open>
  Completion. \<^verbatim>\<open>done()\<close> emits \<^verbatim>\<open>finished()\<close>; the connected slots run inside the
  emission and may call back into the task, so the methods are mutually recursive.
  The result \<open>None\<close> stands for the dereference of a null \<^verbatim>\<open>d->client\<close> in
  \<^verbatim>\<open>setError(const QDomElement &)\<close>.
\<close>

function (domintros)
  Task_done :: "ctx \<Rightarrow> task \<Rightarrow> task option" and
  finished :: "ctx \<Rightarrow> task \<Rightarrow> task option" and
  invokeAll :: "ctx \<Rightarrow> call list \<Rightarrow> task \<Rightarrow> task option" and
  invoke :: "ctx \<Rightarrow> call \<Rightarrow> task \<Rightarrow> task option" and
  setSuccess :: "ctx \<Rightarrow> int \<Rightarrow> string \<Rightarrow> task \<Rightarrow> task option" and
  setErrorE :: "ctx \<Rightarrow> element \<Rightarrow> task \<Rightarrow> task option" and
  setError :: "ctx \<Rightarrow> int \<Rightarrow> string \<Rightarrow> task \<Rightarrow> task option"
where
  "Task_done X t =
     (if d_done t \<or> d_insig t then Some t
      else let t = t\<lparr>d_done := True\<rparr>;
               t = (if d_deleteme t \<or> d_autoDelete t then t\<lparr>d_deleteme := True\<rparr> else t);
               t = t\<lparr>d_insig := True\<rparr>
           in case finished X t of
                None \<Rightarrow> None
              | Some t \<Rightarrow>
                  (let t = t\<lparr>d_insig := False\<rparr>
                   in Some (if d_deleteme t then emit DeleteSingle t else t)))"
| "finished X t = invokeAll X (slots X) (emit Finished t)"
| "invokeAll X [] t = Some t"
| "invokeAll X (c # cs) t =
     (case invoke X c t of None \<Rightarrow> None | Some t \<Rightarrow> invokeAll X cs t)"
| "invoke X (Go autoDelete) t = Some (go autoDelete t)"
| "invoke X SafeDelete t = Some (safeDelete t)"
| "invoke X OnDisconnect t = Some (onDisconnect t)"
| "invoke X (SetSuccess code str) t = setSuccess X code str t"
| "invoke X (SetErrorElem e) t = setErrorE X e t"
| "invoke X (SetError code str) t = setError X code str t"
| "invoke X ClientDisconnected t = Some (onDisconnect t)"
| "invoke X Done t = Task_done X t"
| "setSuccess X code str t =
     (if \<not> d_done t
      then Task_done X (t\<lparr>d_success := True, d_statusCode := code, d_statusString := str\<rparr>)
      else Some t)"
| "setErrorE X e t =
     (if \<not> d_done t
      then (case d_client t of
              None \<Rightarrow> None
            | Some c \<Rightarrow>
                (let t = t\<lparr>d_success := False\<rparr>;
                     (code, str) = getErrorFromElement X e (c_streamBaseNS c)
                                     (d_statusCode t, d_statusString t);
                     t = t\<lparr>d_statusCode := code, d_statusString := str\<rparr>;
                     t = t\<lparr>d_error := getStanzaErrorFromElement X e (c_streamBaseNS c)\<rparr>
                 in Task_done X t))
      else Some t)"
| "setError X code str t =
     (if \<not> d_done t
      then Task_done X (t\<lparr>d_success := False, d_statusCode := code, d_statusString := str\<rparr>)
      else Some t)"
  by pat_completeness auto

text \<open>
  Termination. A call either happens on a task that is already done, where no method emits
  the signal again, or it is the one call that sets \<open>d_done\<close>; a method invoked on a done
  task leaves it done.
\<close>

lemma Task_done_dom_done:
  "d_done t \<Longrightarrow>
   Task_done_finished_invokeAll_invoke_setSuccess_setErrorE_setError_dom (Inl (Inl (X, t)))"
  by (rule Task_done_finished_invokeAll_invoke_setSuccess_setErrorE_setError.domintros) simp_all

lemma setSuccess_dom_done:
  "d_done t \<Longrightarrow>
   Task_done_finished_invokeAll_invoke_setSuccess_setErrorE_setError_dom
     (Inr (Inl (Inr (X, code, str, t))))"
  by (rule Task_done_finished_invokeAll_invoke_setSuccess_setErrorE_setError.domintros) simp_all

lemma setErrorE_dom_done:
  "d_done t \<Longrightarrow>
   Task_done_finished_invokeAll_invoke_setSuccess_setErrorE_setError_dom
     (Inr (Inr (Inl (X, e, t))))"
  by (rule Task_done_finished_invokeAll_invoke_setSuccess_setErrorE_setError.domintros) simp_all

lemma setError_dom_done:
  "d_done t \<Longrightarrow>
   Task_done_finished_invokeAll_invoke_setSuccess_setErrorE_setError_dom
     (Inr (Inr (Inr (X, code, str, t))))"
  by (rule Task_done_finished_invokeAll_invoke_setSuccess_setErrorE_setError.domintros) simp_all

lemma invoke_dom_keeps_done:
  assumes dom: "Task_done_finished_invokeAll_invoke_setSuccess_setErrorE_setError_dom
                  (Inr (Inl (Inl (X, c, t))))"
    and d: "d_done t" and r: "invoke X c t = Some t'"
  shows "d_done t'"
proof (cases c)
  case (Go a)
  with dom d r show ?thesis
    by (auto simp: invoke.psimps go_def onGo_def emit_def Let_def split: if_splits)
next
  case SafeDelete
  with dom d r show ?thesis
    by (auto simp: invoke.psimps safeDelete_def emit_def Let_def split: if_splits)
next
  case OnDisconnect
  with dom d r show ?thesis by (auto simp: invoke.psimps onDisconnect_def)
next
  case (SetSuccess code str)
  with dom d r show ?thesis by (auto simp: invoke.psimps setSuccess.psimps setSuccess_dom_done)
next
  case (SetErrorElem e)
  with dom d r show ?thesis by (auto simp: invoke.psimps setErrorE.psimps setErrorE_dom_done)
next
  case (SetError code str)
  with dom d r show ?thesis by (auto simp: invoke.psimps setError.psimps setError_dom_done)
next
  case ClientDisconnected
  with dom d r show ?thesis by (auto simp: invoke.psimps onDisconnect_def)
next
  case Done
  with dom d r show ?thesis by (auto simp: invoke.psimps Task_done.psimps Task_done_dom_done)
qed

definition call_rank ::
  "(ctx \<times> task + ctx \<times> task + ctx \<times> call list \<times> task) +
   (ctx \<times> call \<times> task + ctx \<times> int \<times> string \<times> task) +
   ctx \<times> element \<times> task + ctx \<times> int \<times> string \<times> task \<Rightarrow> nat \<times> nat" where
  "call_rank a = (case a of
      Inl (Inl (X, t)) \<Rightarrow> (if d_done t then 0 else 1, 0)
    | Inl (Inr (Inl (X, t))) \<Rightarrow> (if d_done t then 0 else 1, 4 + length (slots X))
    | Inl (Inr (Inr (X, cs, t))) \<Rightarrow> (if d_done t then 0 else 1, 3 + length cs)
    | Inr (Inl (Inl (X, c, t))) \<Rightarrow> (if d_done t then 0 else 1, 2)
    | Inr (Inl (Inr (X, code, str, t))) \<Rightarrow> (if d_done t then 0 else 1, 1)
    | Inr (Inr (Inl (X, e, t))) \<Rightarrow> (if d_done t then 0 else 1, 1)
    | Inr (Inr (Inr (X, code, str, t))) \<Rightarrow> (if d_done t then 0 else 1, 1))"

termination Task_done
  apply (relation "inv_image (less_than <*lex*> less_than) call_rank")
  apply (auto simp: call_rank_def emit_def dest: invoke_dom_keeps_done)
  done

declare Task_done.simps [simp del]
declare finished.simps [simp del]
declare setSuccess.simps [simp del]
declare setErrorE.simps [simp del]
declare setError.simps [simp del]

definition timerEvent :: "ctx \<Rightarrow> task \<Rightarrow> task option" where
  \<comment> \<open>Modelled from the spec: on a later turn of the event loop an armed zero-delay timer
      fires and calls its slot \<^verbatim>\<open>done()\<close>.\<close>
  "timerEvent X t =
     (case timers t of 0 \<Rightarrow> Some t | Suc n \<Rightarrow> Task_done X (t\<lparr>timers := n\<rparr>))"

section \<open>Reply verification\<close>

definition iqVerify :: "task \<Rightarrow> element \<Rightarrow> jid \<Rightarrow> string \<Rightarrow> string \<Rightarrow> bool option" where
  \<comment> \<open>\<open>None\<close>: \<^verbatim>\<open>client()\<close> is null and is dereferenced. \<^verbatim>\<open>local.domain()\<close> is a string,
      converted back to a JID for the comparison.\<close>
  "iqVerify t x to id' xmlns =
     (if tagName x \<noteq> ''iq'' then Some False
      else case d_client t of
        None \<Rightarrow> None
      | Some cl \<Rightarrow>
          (let from = Jid (attribute x ''from'');
               local = c_jid cl;
               server = c_host cl
           in if (if isEmpty from
                  then \<not> isEmpty to \<and> \<not> compare to server True
                  else if compare from local False \<or> compare from (Jid (domain local)) False
                  then \<not> isEmpty to \<and> \<not> compare to local False \<and> \<not> compare to server True
                  else \<not> compare from to True)
              then Some False
              else if id' \<noteq> [] \<and> attribute x ''id'' \<noteq> id' then Some False
              else if xmlns \<noteq> [] \<and> queryNS x \<noteq> xmlns then Some False
              else Some True))"

section \<open>Dispatch through the object tree\<close>

text \<open>
  The children of a task are \<^verbatim>\<open>QObject\<close>s in registration order. A child either does not
  inherit \<^verbatim>\<open>XMPP::Task\<close>, or it is a task with an identifier, with its own children and
  with its implementation of the virtual \<^verbatim>\<open>take\<close>; \<open>None\<close> is the base implementation.

  Modelled from the spec: \<open>Some awaited\<close> is the override of a subclass, which first tests
  whether the element is the reply it awaits and otherwise delegates to the base
  implementation.
\<close>

datatype qobject =
    Other "qobject list"
  | TaskObj nat "(element \<Rightarrow> bool) option" "qobject list"

fun inherits_Task :: "qobject \<Rightarrow> bool" where
  "inherits_Task (Other _) = False"
| "inherits_Task (TaskObj _ _ _) = True"

text \<open>
  \<open>take_virtual x obj\<close> is the call \<^verbatim>\<open>t->take(x)\<close> on a child, \<open>Task_take x p\<close> the body of
  \<^verbatim>\<open>Task::take\<close> on a task whose children are \<open>p\<close>. Both return the result together
  with the identifiers of the tasks whose \<^verbatim>\<open>take\<close> was entered, in order.
\<close>

fun take_virtual :: "element \<Rightarrow> qobject \<Rightarrow> bool \<times> nat list"
  and Task_take :: "element \<Rightarrow> qobject list \<Rightarrow> bool \<times> nat list" where
  "take_virtual x (TaskObj i None cs) = (let (r, v) = Task_take x cs in (r, i # v))"
| "take_virtual x (TaskObj i (Some awaited) cs) =
     (if awaited x then (True, [i]) else let (r, v) = Task_take x cs in (r, i # v))"
| "take_virtual x (Other cs) = (False, [])"
| "Task_take x [] = (False, [])"
| "Task_take x (obj # p) =
     (if \<not> inherits_Task obj then Task_take x p
      else let (r, v) = take_virtual x obj
           in if r then (True, v)
              else let (r', v') = Task_take x p in (r', v @ v'))"

definition visits :: "element \<Rightarrow> qobject list \<Rightarrow> nat list" where
  \<comment> \<open>The tasks entered when every task among \<open>p\<close> is asked in turn.\<close>
  "visits x p = concat (map (\<lambda>obj. snd (take_virtual x obj)) (filter inherits_Task p))"

section \<open>Legacy error codes\<close>

text \<open>
  Modelled from the spec: the bodies of \<^verbatim>\<open>Stanza::Error::code\<close> and
  \<^verbatim>\<open>Stanza::Error::fromCode\<close> are not among the sources (only their declarations in
  \<^verbatim>\<open>xmpp_stanza.h\<close>). The spec describes \<open>code\<close> as a lookup from (type, condition) in a
  fixed table that returns 0 when there is no mapping, and \<open>fromCode\<close> as its inverse, which
  returns whether the code is recognised and stores the original code. It names the rows
  400, 401, 404, 409, 500, 501 and 503 and refers to the published legacy table for the rest;
  the table below is that table, one row per condition.
\<close>

definition legacyCodeTable :: "(ErrorCond \<times> ErrorType \<times> int) list" where
  \<comment> \<open>Modelled from the spec: the legacy table, as (condition, type, code).\<close>
  "legacyCodeTable =
     [(BadRequest, Modify, 400),
      (Conflict, Cancel, 409),
      (FeatureNotImplemented, Cancel, 501),
      (Forbidden, Auth, 403),
      (Gone, Modify, 302),
      (InternalServerError, Wait, 500),
      (ItemNotFound, Cancel, 404),
      (JidMalformed, Modify, 400),
      (NotAcceptable, Modify, 406),
      (NotAllowed, Cancel, 405),
      (NotAuthorized, Auth, 401),
      (PaymentRequired, Auth, 402),
      (RecipientUnavailable, Wait, 404),
      (Redirect, Modify, 302),
      (RegistrationRequired, Auth, 407),
      (RemoteServerNotFound, Cancel, 404),
      (RemoteServerTimeout, Wait, 504),
      (ResourceConstraint, Wait, 500),
      (ServiceUnavailable, Cancel, 503),
      (SubscriptionRequired, Auth, 407),
      (UndefinedCondition, Wait, 500),
      (UnexpectedRequest, Wait, 400)]"

definition tableCodes :: "int list" where
  \<comment> \<open>The codes of the table.\<close>
  "tableCodes = map (\<lambda>(c, ty, n). n) legacyCodeTable"

definition tablePairs :: "(int \<times> int) list" where
  \<comment> \<open>The (type, condition) pairs of the table, as the numbers an error object holds.\<close>
  "tablePairs = map (\<lambda>(c, ty, n). (ErrorType_value ty, ErrorCond_value c)) legacyCodeTable"

definition code :: "Error \<Rightarrow> int" where
  \<comment> \<open>Modelled from the spec: \<^verbatim>\<open>Error::code()\<close>.\<close>
  "code e =
     (case find (\<lambda>(c, ty, n). ErrorType_value ty = err_type e \<and> ErrorCond_value c = err_condition e)
             legacyCodeTable of
        Some (c, ty, n) \<Rightarrow> n
      | None \<Rightarrow> 0)"

definition fromCode :: "int \<Rightarrow> Error \<Rightarrow> bool \<times> Error" where
  \<comment> \<open>Modelled from the spec: \<^verbatim>\<open>Error::fromCode(code)\<close>, the result and the object afterwards.\<close>
  "fromCode n0 e =
     (case find (\<lambda>(c, ty, n). n = n0) legacyCodeTable of
        None \<Rightarrow> (False, e)
      | Some (c, ty, n) \<Rightarrow>
          (True, e\<lparr>err_type := ErrorType_value ty, err_condition := ErrorCond_value c,
                   originalCode := n0\<rparr>))"

section \<open>Observations on a task\<close>

definition outcome :: "task \<Rightarrow> bool \<times> int \<times> string \<times> Error option" where
  \<comment> \<open>What the accessors show of the result: success flag, status code, status string and
      the structured error.\<close>
  "outcome t = (success t, statusCode t, statusString t, d_error t)"

definition fired :: "task \<Rightarrow> nat" where
  \<comment> \<open>How often \<^verbatim>\<open>finished()\<close> has been emitted.\<close>
  "fired t = count_list (trace t) Finished"

definition destroyed :: "task \<Rightarrow> nat" where
  \<comment> \<open>How often \<^verbatim>\<open>SafeDelete::deleteSingle(this)\<close> has been called.\<close>
  "destroyed t = count_list (trace t) DeleteSingle"

fun isSetCall :: "call \<Rightarrow> bool" where
  "isSetCall (SetSuccess _ _) = True"
| "isSetCall (SetErrorElem _) = True"
| "isSetCall (SetError _ _) = True"
| "isSetCall _ = False"

definition task_inv :: "task \<Rightarrow> bool" where
  \<comment> \<open>Holds of every task the code can reach: the signal is only delivered once the task
      is done, and a task that is not done holds no structured error.\<close>
  "task_inv t = ((d_insig t \<longrightarrow> d_done t) \<and> (\<not> d_done t \<longrightarrow> d_error t = None))"

definition once_inv :: "task \<Rightarrow> bool" where
  \<comment> \<open>The signal has been emitted once if the task is done, and never otherwise.\<close>
  "once_inv t = (task_inv t \<and> fired t = (if d_done t then 1 else 0))"

definition quiet :: "task \<Rightarrow> task \<Rightarrow> bool" where
  \<comment> \<open>What code running inside the signal can change: it may ask for deletion, set
      \<open>d_autoDelete\<close>, and cause the events of \<^verbatim>\<open>go\<close>.\<close>
  "quiet t t' =
     (d_done t' \<and> d_insig t' \<and>
      d_success t' = d_success t \<and> d_statusCode t' = d_statusCode t \<and>
      d_statusString t' = d_statusString t \<and> d_error t' = d_error t \<and>
      d_client t' = d_client t \<and> d_id t' = d_id t \<and> timers t' = timers t \<and>
      (\<exists>evs. trace t' = trace t @ evs \<and> set evs \<subseteq> {DeleteLater, Warning, OnGo}))"

definition completes :: "ctx \<Rightarrow> task \<Rightarrow> task \<Rightarrow> bool" where
  \<comment> \<open>The effect of one effective run of \<^verbatim>\<open>done()\<close>.\<close>
  "completes X t t' =
     (d_done t' \<and> \<not> d_insig t' \<and>
      d_success t' = d_success t \<and> d_statusCode t' = d_statusCode t \<and>
      d_statusString t' = d_statusString t \<and> d_error t' = d_error t \<and>
      d_client t' = d_client t \<and> d_id t' = d_id t \<and> timers t' = timers t \<and>
      d_deleteme t' = (d_deleteme t \<or> d_autoDelete t \<or> SafeDelete \<in> set (slots X)) \<and>
      (\<exists>evs. set evs \<subseteq> {DeleteLater, Warning, OnGo} \<and>
         trace t' = trace t @ Finished # evs @ (if d_deleteme t' then [DeleteSingle] else [])))"

fun completing :: "call \<Rightarrow> bool" where
  \<comment> \<open>The calls that run \<^verbatim>\<open>done()\<close>.\<close>
  "completing (SetSuccess _ _) = True"
| "completing (SetErrorElem _) = True"
| "completing (SetError _ _) = True"
| "completing Done = True"
| "completing _ = False"



definition disconnected :: "bool \<times> int \<times> string \<times> Error option" where
  \<comment> \<open>The outcome of a forced disconnect.\<close>
  "disconnected = (False, ErrDisc, ''Disconnected'', None)"

definition disc_inv :: "task \<Rightarrow> bool" where
  \<comment> \<open>Between the disconnect callback and its timer: a timer is armed, and a task that
      is not done yet holds the outcome of the disconnect.\<close>
  "disc_inv t = (task_inv t \<and> 0 < timers t \<and> (\<not> d_done t \<longrightarrow> outcome t = disconnected))"

definition plainCtx :: ctx where
  \<comment> \<open>An example of surroundings with no slot connected to \<^verbatim>\<open>finished()\<close>.\<close>
  "plainCtx =
     \<lparr>getErrorFromElement = (\<lambda>e ns cs. cs), fromXml = (\<lambda>e ns err. err), slots = []\<rparr>"

definition exampleCtx :: ctx where
  \<comment> \<open>An example of surroundings: helpers that leave what they are given unchanged, and a
      slot on \<^verbatim>\<open>finished()\<close> that asks for deletion and then calls \<^verbatim>\<open>setSuccess\<close> again.\<close>
  "exampleCtx =
     \<lparr>getErrorFromElement = (\<lambda>e ns cs. cs), fromXml = (\<lambda>e ns err. err),
      slots = [SafeDelete, SetSuccess 7 ''late'']\<rparr>"

definition exampleClient :: client where
  \<comment> \<open>An example client: a connected account \<^verbatim>\<open>me@example.com/home\<close> on \<^verbatim>\<open>example.com\<close>.\<close>
  "exampleClient =
     \<lparr>c_jid = Jid ''me@example.com/home'', c_host = Jid ''example.com'',
      c_streamBaseNS = ''jabber:client'', c_stream = True\<rparr>"

definition errorReply :: element where
  \<comment> \<open>An example IQ reply of type error with an \<^verbatim>\<open>error\<close> child.\<close>
  "errorReply =
     Element ''iq'' [(''type'', ''error''), (''id'', ''q1'')]
       [Element ''query'' [(''xmlns'', ''jabber:iq:version'')] [],
        Element ''error'' [(''type'', ''cancel'')] [Element ''item-not-found'' [] []]]"

section \<open>Completion: what one run of done() does\<close>

lemma quiet_refl: "d_done t \<Longrightarrow> d_insig t \<Longrightarrow> quiet t t"
  by (simp add: quiet_def)

lemma quiet_trans: "quiet t t' \<Longrightarrow> quiet t' t'' \<Longrightarrow> quiet t t''"
  by (auto simp: quiet_def)

lemma invoke_in_signal:
  assumes "d_done t" "d_insig t"
  shows "\<exists>t'. invoke X c t = Some t' \<and> quiet t t' \<and>
           d_deleteme t' = (d_deleteme t \<or> c = SafeDelete)"
  using assms
  by (cases c)
     (auto simp: quiet_def go_def onGo_def emit_def safeDelete_def onDisconnect_def Let_def
        setSuccess.simps setErrorE.simps setError.simps Task_done.simps)

lemma invokeAll_in_signal:
  assumes "d_done t" "d_insig t"
  shows "\<exists>t'. invokeAll X cs t = Some t' \<and> quiet t t' \<and>
           d_deleteme t' = (d_deleteme t \<or> SafeDelete \<in> set cs)"
  using assms
proof (induction cs arbitrary: t)
  case Nil
  then show ?case by (simp add: quiet_refl)
next
  case (Cons c cs)
  from invoke_in_signal[OF Cons.prems, of X c] obtain t1 where
    1: "invoke X c t = Some t1" "quiet t t1" "d_deleteme t1 = (d_deleteme t \<or> c = SafeDelete)"
    by blast
  then have "d_done t1" "d_insig t1" by (auto simp: quiet_def)
  from Cons.IH[OF this] obtain t2 where
    2: "invokeAll X cs t1 = Some t2" "quiet t1 t2"
       "d_deleteme t2 = (d_deleteme t1 \<or> SafeDelete \<in> set cs)"
    by blast
  from 1 2 show ?case by (auto intro: quiet_trans)
qed

lemma Task_done_completes:
  assumes "\<not> d_done t" "\<not> d_insig t"
  shows "\<exists>t'. Task_done X t = Some t' \<and> completes X t t'"
proof -
  define t0 where
    "t0 = (if d_deleteme t \<or> d_autoDelete t then t\<lparr>d_done := True, d_deleteme := True\<rparr>
           else t\<lparr>d_done := True\<rparr>)\<lparr>d_insig := True\<rparr>"
  define t1 where "t1 = emit Finished t0"
  have d1: "d_done t1" "d_insig t1" by (simp_all add: t1_def t0_def emit_def)
  from invokeAll_in_signal[OF d1, of X "slots X"] obtain t2 where
    2: "invokeAll X (slots X) t1 = Some t2" "quiet t1 t2"
       "d_deleteme t2 = (d_deleteme t1 \<or> SafeDelete \<in> set (slots X))"
    by blast
  define t3 where
    "t3 = (if d_deleteme t2 then emit DeleteSingle (t2\<lparr>d_insig := False\<rparr>)
           else t2\<lparr>d_insig := False\<rparr>)"
  have fin: "finished X t0 = Some t2"
    using 2(1) by (simp add: finished.simps t1_def)
  have td: "Task_done X t = Some t3"
    using assms fin by (simp add: Task_done.simps[of X t] Let_def t0_def t3_def)
  from 2(2) obtain evs where
    evs: "trace t2 = trace t1 @ evs" "set evs \<subseteq> {DeleteLater, Warning, OnGo}"
    by (auto simp: quiet_def)
  have tr1: "trace t1 = trace t @ [Finished]"
    by (simp add: t1_def t0_def emit_def)
  have tr3: "trace t3 = trace t @ Finished # evs @ (if d_deleteme t3 then [DeleteSingle] else [])"
    using evs(1) tr1 by (simp add: t3_def emit_def)
  have dm: "d_deleteme t3 = (d_deleteme t \<or> d_autoDelete t \<or> SafeDelete \<in> set (slots X))"
    using 2(3) by (auto simp: t3_def t1_def t0_def emit_def)
  have flds: "d_done t3" "\<not> d_insig t3" "d_success t3 = d_success t"
      "d_statusCode t3 = d_statusCode t" "d_statusString t3 = d_statusString t"
      "d_error t3 = d_error t" "d_client t3 = d_client t" "d_id t3 = d_id t"
      "timers t3 = timers t"
    using 2(2) by (auto simp: quiet_def t3_def t1_def t0_def emit_def)
  have "completes X t t3"
    unfolding completes_def using flds dm tr3 evs(2) by blast
  with td show ?thesis by blast
qed

lemma count_hook_events:
  "set evs \<subseteq> {DeleteLater, Warning, OnGo} \<Longrightarrow>
   count_list evs Finished = 0 \<and> count_list evs DeleteSingle = 0"
  by (induction evs) auto

lemma completes_fired: "completes X t t' \<Longrightarrow> fired t' = Suc (fired t)"
  by (auto simp: completes_def fired_def count_hook_events)

lemma completes_destroyed:
  "completes X t t' \<Longrightarrow> destroyed t' = destroyed t + (if d_deleteme t' then 1 else 0)"
  by (auto simp: completes_def destroyed_def count_hook_events)

lemma setSuccess_completes:
  assumes "task_inv t" "\<not> d_done t"
  shows "\<exists>t'. setSuccess X c s t = Some t' \<and>
           completes X (t\<lparr>d_success := True, d_statusCode := c, d_statusString := s\<rparr>) t'"
proof -
  have "\<not> d_insig t" using assms by (auto simp: task_inv_def)
  with assms(2) show ?thesis
    using Task_done_completes[of "t\<lparr>d_success := True, d_statusCode := c, d_statusString := s\<rparr>" X]
    by (simp add: setSuccess.simps)
qed

lemma setError_completes:
  assumes "task_inv t" "\<not> d_done t"
  shows "\<exists>t'. setError X c s t = Some t' \<and>
           completes X (t\<lparr>d_success := False, d_statusCode := c, d_statusString := s\<rparr>) t'"
proof -
  have "\<not> d_insig t" using assms by (auto simp: task_inv_def)
  with assms(2) show ?thesis
    using Task_done_completes[of "t\<lparr>d_success := False, d_statusCode := c, d_statusString := s\<rparr>" X]
    by (simp add: setError.simps)
qed

lemma setErrorE_completes:
  assumes "task_inv t" "\<not> d_done t" "d_client t = Some cl"
  shows "\<exists>t'. setErrorE X e t = Some t' \<and>
           completes X
             (t\<lparr>d_success := False,
                d_statusCode := fst (getErrorFromElement X e (c_streamBaseNS cl)
                                      (d_statusCode t, d_statusString t)),
                d_statusString := snd (getErrorFromElement X e (c_streamBaseNS cl)
                                      (d_statusCode t, d_statusString t)),
                d_error := getStanzaErrorFromElement X e (c_streamBaseNS cl)\<rparr>) t'"
proof -
  have "\<not> d_insig t" using assms by (auto simp: task_inv_def)
  with assms(2,3) show ?thesis
    using Task_done_completes[of "t\<lparr>d_success := False,
                d_statusCode := fst (getErrorFromElement X e (c_streamBaseNS cl)
                                      (d_statusCode t, d_statusString t)),
                d_statusString := snd (getErrorFromElement X e (c_streamBaseNS cl)
                                      (d_statusCode t, d_statusString t)),
                d_error := getStanzaErrorFromElement X e (c_streamBaseNS cl)\<rparr>" X]
    by (simp add: setErrorE.simps Let_def split_beta)
qed

lemma set_call_when_done: "d_done t \<Longrightarrow> isSetCall c \<Longrightarrow> invoke X c t = Some t"
  by (cases c) (simp_all add: setSuccess.simps setErrorE.simps setError.simps)

lemma set_calls_when_done:
  "d_done t \<Longrightarrow> \<forall>c \<in> set cs. isSetCall c \<Longrightarrow> invokeAll X cs t = Some t"
  by (induction cs) (simp_all add: set_call_when_done)

lemma invoke_done_ctx:
  "d_done t \<Longrightarrow> invoke X c t = invoke X' c t \<and> (\<exists>t'. invoke X c t = Some t' \<and> d_done t')"
  by (cases c)
     (auto simp: go_def onGo_def emit_def safeDelete_def onDisconnect_def Let_def
        setSuccess.simps setErrorE.simps setError.simps Task_done.simps)

text \<open>
  The invariant holds initially and is kept by every call; a request for deletion is never
  withdrawn.
\<close>

lemma Task_done_cases:
  "(d_done t \<or> d_insig t) \<and> Task_done X t = Some t \<or>
   \<not> d_done t \<and> \<not> d_insig t \<and> (\<exists>t'. Task_done X t = Some t' \<and> completes X t t')"
  using Task_done_completes[of t X] by (auto simp: Task_done.simps)

lemma go_fields:
  "d_insig (go a t) = d_insig t" "d_done (go a t) = d_done t" "d_deleteme (go a t) = d_deleteme t"
  "d_error (go a t) = d_error t"
  by (simp_all add: go_def onGo_def emit_def Let_def)

lemma safeDelete_fields:
  "d_insig (safeDelete t) = d_insig t" "d_done (safeDelete t) = d_done t" "d_deleteme (safeDelete t)"
  "d_error (safeDelete t) = d_error t"
  by (simp_all add: safeDelete_def emit_def Let_def)

lemma onDisconnect_fields:
  "d_insig (onDisconnect t) = d_insig t" "d_done (onDisconnect t) = d_done t"
  "d_deleteme (onDisconnect t) = d_deleteme t" "d_error (onDisconnect t) = d_error t"
  by (simp_all add: onDisconnect_def Let_def)

lemma task_inv_init: "task_inv (init junk)" "task_inv (Task_root parent junk)"
  by (simp_all add: task_inv_def init_def Task_root_def)

lemma task_inv_Task_done:
  "task_inv t \<Longrightarrow> Task_done X t = Some t' \<Longrightarrow> task_inv t'"
  using Task_done_cases[of t X] by (auto simp: task_inv_def completes_def)

lemma task_inv_invoke:
  assumes "task_inv t" "invoke X c t = Some t'"
  shows "task_inv t'"
proof (cases "d_done t")
  case True
  then show ?thesis using invoke_done_ctx[of t X c X] assms(2) by (auto simp: task_inv_def)
next
  case False
  with assms(1) have ni: "\<not> d_insig t" "d_error t = None" by (simp_all add: task_inv_def)
  show ?thesis
  proof (cases c)
    case (Go a)
    with assms(2) ni show ?thesis by (auto simp: task_inv_def go_fields)
  next
    case SafeDelete
    with assms(2) ni show ?thesis by (auto simp: task_inv_def safeDelete_fields)
  next
    case OnDisconnect
    with assms(2) ni show ?thesis by (auto simp: task_inv_def onDisconnect_fields)
  next
    case (SetSuccess code str)
    with assms(2) False ni show ?thesis
      using setSuccess_completes[OF assms(1) False, of X code str]
      by (auto simp: task_inv_def completes_def)
  next
    case (SetErrorElem e)
    show ?thesis
    proof (cases "d_client t")
      case None
      with assms(2) SetErrorElem False show ?thesis by (simp add: setErrorE.simps)
    next
      case (Some cl)
      with assms(2) SetErrorElem show ?thesis
        using setErrorE_completes[OF assms(1) False Some, of X e]
        by (auto simp: task_inv_def completes_def)
    qed
  next
    case (SetError code str)
    with assms(2) False ni show ?thesis
      using setError_completes[OF assms(1) False, of X code str]
      by (auto simp: task_inv_def completes_def)
  next
    case ClientDisconnected
    with assms(2) ni show ?thesis by (auto simp: task_inv_def onDisconnect_fields)
  next
    case Done
    with assms show ?thesis using task_inv_Task_done[of t X t'] by simp
  qed
qed

lemma task_inv_invokeAll:
  "task_inv t \<Longrightarrow> invokeAll X cs t = Some t' \<Longrightarrow> task_inv t'"
  by (induction cs arbitrary: t) (auto split: option.splits dest: task_inv_invoke)




section \<open>Disconnection\<close>

lemma disconnect_then_timer:
  assumes "task_inv t" "\<not> d_done t"
  shows "\<exists>t'. timerEvent X (onDisconnect t) = Some t' \<and> d_done t' \<and> \<not> d_insig t' \<and>
           \<not> success t' \<and> statusCode t' = ErrDisc \<and> statusString t' = ''Disconnected'' \<and>
           d_error t' = d_error t \<and> timers t' = timers t \<and> fired t' = Suc (fired t) \<and>
           destroyed t' = destroyed t +
             (if d_deleteme t \<or> d_autoDelete t \<or> SafeDelete \<in> set (slots X) then 1 else 0)"
proof -
  define u where "u = t\<lparr>d_success := False, d_statusCode := ErrDisc,
                         d_statusString := ''Disconnected''\<rparr>"
  have ni: "\<not> d_insig t" using assms by (auto simp: task_inv_def)
  have od: "onDisconnect t = u\<lparr>timers := Suc (timers t)\<rparr>"
    using assms(2) by (simp add: onDisconnect_def u_def tr_def Let_def)
  have te: "timerEvent X (onDisconnect t) = Task_done X u"
    by (simp add: od timerEvent_def u_def)
  have "\<not> d_done u" "\<not> d_insig u" using assms(2) ni by (simp_all add: u_def)
  from Task_done_completes[OF this, of X] obtain t' where
    t': "Task_done X u = Some t'" "completes X u t'" by blast
  have "fired t' = Suc (fired t)"
    using completes_fired[OF t'(2)] by (simp add: fired_def u_def)
  moreover have "destroyed t' = destroyed t +
      (if d_deleteme t \<or> d_autoDelete t \<or> SafeDelete \<in> set (slots X) then 1 else 0)"
    using completes_destroyed[OF t'(2)] t'(2) by (simp add: completes_def destroyed_def u_def)
  ultimately show ?thesis using t' te
    by (auto simp: completes_def u_def success_def statusCode_def statusString_def)
qed

text \<open>
  C10. The status code of a forced disconnect, \<open>ErrDisc\<close>, is 0, which is also the default
  code argument of \<^verbatim>\<open>setSuccess\<close>. A task completed by a disconnect (the callback, then
  the timer) and the same task completed by \<^verbatim>\<open>setSuccess\<close> with its default code (and any
  status string, the default being the empty one) both report \<open>statusCode = 0\<close>, so the status
  code does not tell them apart; \<open>success\<close> does, being false after the disconnect and true
  after \<^verbatim>\<open>setSuccess\<close>. Neither holds a structured error.
\<close>

theorem ErrDisc_is_default_success_code:
  "ErrDisc = 0 \<and>
   (task_inv t \<and> \<not> d_done t \<longrightarrow>
     (\<exists>t1 t2. timerEvent X (onDisconnect t) = Some t1 \<and> setSuccess X 0 str t = Some t2 \<and>
        statusCode t1 = 0 \<and> statusCode t2 = 0 \<and> \<not> success t1 \<and> success t2 \<and>
        outcome t1 = (False, 0, ''Disconnected'', None) \<and>
        outcome t2 = (True, 0, str, None)))"
proof (intro conjI impI)
  show "ErrDisc = 0" by (simp add: ErrDisc_def)
next
  assume a: "task_inv t \<and> \<not> d_done t"
  then have noerr: "d_error t = None" by (simp add: task_inv_def)
  from a obtain t1 where
    1: "timerEvent X (onDisconnect t) = Some t1" "\<not> success t1" "statusCode t1 = ErrDisc"
       "statusString t1 = ''Disconnected''" "d_error t1 = d_error t"
    using disconnect_then_timer[of t X] by blast
  from a obtain t2 where
    2: "setSuccess X 0 str t = Some t2"
       "completes X (t\<lparr>d_success := True, d_statusCode := 0, d_statusString := str\<rparr>) t2"
    using setSuccess_completes[of t X 0 str] by blast
  from 1 2 noerr show "\<exists>t1 t2. timerEvent X (onDisconnect t) = Some t1 \<and>
        setSuccess X 0 str t = Some t2 \<and>
        statusCode t1 = 0 \<and> statusCode t2 = 0 \<and> \<not> success t1 \<and> success t2 \<and>
        outcome t1 = (False, 0, ''Disconnected'', None) \<and>
        outcome t2 = (True, 0, str, None)"
    by (auto simp: completes_def ErrDisc_def outcome_def success_def statusCode_def
          statusString_def)
qed

theorem ErrDisc_is_default_success_code_witness:
  "task_inv (init 42) \<and> \<not> d_done (init 42) \<and>
   (\<exists>t1 t2. timerEvent exampleCtx (onDisconnect (init 42)) = Some t1 \<and>
      setSuccess exampleCtx 0 [] (init 42) = Some t2 \<and>
      statusCode t1 = 0 \<and> statusCode t2 = 0 \<and> \<not> success t1 \<and> success t2 \<and>
      outcome t1 = (False, 0, ''Disconnected'', None) \<and> outcome t2 = (True, 0, [], None))"
  using ErrDisc_is_default_success_code[of "init 42" exampleCtx "[]"]
  by (simp add: task_inv_def init_def)

section \<open>Starting a task\<close>

text \<open>
  C8. \<^verbatim>\<open>go(autoDelete)\<close> stores the flag. Without a client, or with a client that has no
  stream, it prints the warning, calls \<^verbatim>\<open>deleteLater()\<close> exactly when \<open>autoDelete\<close> is
  set, and does not call the send hook \<^verbatim>\<open>onGo()\<close>. With a client that has a stream it
  calls \<^verbatim>\<open>onGo()\<close> and nothing else.
\<close>

theorem go_needs_stream:
  "d_autoDelete (go autoDelete t) = autoDelete \<and>
   (d_client t = None \<or> (\<exists>c. d_client t = Some c \<and> \<not> c_stream c) \<longrightarrow>
      trace (go autoDelete t) = trace t @ Warning # (if autoDelete then [DeleteLater] else [])) \<and>
   ((\<exists>c. d_client t = Some c \<and> c_stream c) \<longrightarrow>
      trace (go autoDelete t) = trace t @ [OnGo])"
  by (auto simp: go_def onGo_def emit_def Let_def)

theorem go_needs_stream_witness:
  "d_client (Task_root None 0) = None \<and>
   trace (go True (Task_root None 0)) = [Warning, DeleteLater] \<and>
   d_client (Task_root (Some exampleClient) 0) = Some exampleClient \<and> c_stream exampleClient \<and>
   trace (go True (Task_root (Some exampleClient) 0)) = [OnGo]"
  using go_needs_stream[of True "Task_root None 0"]
    go_needs_stream[of True "Task_root (Some exampleClient) 0"]
  by (simp add: Task_root_def init_def exampleClient_def)

section \<open>Structured errors\<close>

lemma findSubTag_Some_iff:
  "(findSubTag e name \<noteq> None) = (\<exists>c \<in> set (childElements e). tagName c = name)"
  by (auto simp: findSubTag_def find_None_iff)

text \<open>
  C7. \<^verbatim>\<open>errorType()\<close> and \<^verbatim>\<open>errorCondition()\<close> return 0 when no structured error is
  stored and the stored error's type and condition otherwise.
  \<^verbatim>\<open>getStanzaErrorFromElement\<close> returns none when the element has no \<^verbatim>\<open>error\<close> child,
  and otherwise the result of \<^verbatim>\<open>fromXml\<close> on that child, starting from a default
  error. An effective \<^verbatim>\<open>setError(element)\<close> stores exactly that result, so a structured
  error is captured if and only if the element has an \<^verbatim>\<open>error\<close> child.
\<close>

theorem structured_error_capture:
  "(d_error t = None \<longrightarrow> errorType t = 0 \<and> errorCondition t = 0) \<and>
   (\<forall>err. d_error t = Some err \<longrightarrow>
      errorType t = err_type err \<and> errorCondition t = err_condition err) \<and>
   ((\<forall>c \<in> set (childElements e). tagName c \<noteq> ''error'') \<longrightarrow>
      getStanzaErrorFromElement X e ns = None) \<and>
   (\<forall>tag. findSubTag e ''error'' = Some tag \<longrightarrow>
      getStanzaErrorFromElement X e ns = Some (fromXml X tag ns Error_default)) \<and>
   (task_inv t \<and> \<not> d_done t \<and> d_client t = Some cl \<longrightarrow>
      (\<exists>t'. setErrorE X e t = Some t' \<and>
         d_error t' = getStanzaErrorFromElement X e (c_streamBaseNS cl) \<and>
         ((d_error t' \<noteq> None) = (\<exists>c \<in> set (childElements e). tagName c = ''error''))))"
proof (intro conjI impI allI)
  assume "\<forall>c \<in> set (childElements e). tagName c \<noteq> ''error''"
  then have "findSubTag e ''error'' = None" by (auto simp: findSubTag_def find_None_iff)
  then show "getStanzaErrorFromElement X e ns = None"
    by (simp add: getStanzaErrorFromElement_def)
next
  assume a: "task_inv t \<and> \<not> d_done t \<and> d_client t = Some cl"
  from setErrorE_completes[of t cl X e] a obtain t' where
    t': "setErrorE X e t = Some t'"
        "d_error t' = getStanzaErrorFromElement X e (c_streamBaseNS cl)"
    by (auto simp: completes_def)
  have "(getStanzaErrorFromElement X e (c_streamBaseNS cl) \<noteq> None)
          = (\<exists>c \<in> set (childElements e). tagName c = ''error'')"
    using findSubTag_Some_iff[of e "''error''"]
    by (auto simp: getStanzaErrorFromElement_def split: option.splits)
  with t' show "\<exists>t'. setErrorE X e t = Some t' \<and>
         d_error t' = getStanzaErrorFromElement X e (c_streamBaseNS cl) \<and>
         ((d_error t' \<noteq> None) = (\<exists>c \<in> set (childElements e). tagName c = ''error''))"
    by auto
qed (simp_all add: errorType_def errorCondition_def getStanzaErrorFromElement_def)

theorem structured_error_capture_witness:
  "task_inv (Task_root (Some exampleClient) 3) \<and> \<not> d_done (Task_root (Some exampleClient) 3) \<and>
   findSubTag errorReply ''error'' =
     Some (Element ''error'' [(''type'', ''cancel'')] [Element ''item-not-found'' [] []]) \<and>
   (\<exists>t'. setErrorE exampleCtx errorReply (Task_root (Some exampleClient) 3) = Some t' \<and>
      d_error t' = Some Error_default \<and> errorType t' = 1 \<and> errorCondition t' = 21) \<and>
   getStanzaErrorFromElement exampleCtx (Element ''iq'' [] []) ''jabber:client'' = None"
proof -
  let ?t = "Task_root (Some exampleClient) 3"
  have 1: "task_inv ?t" "\<not> d_done ?t" "d_client ?t = Some exampleClient"
    by (simp_all add: task_inv_def Task_root_def init_def)
  have 2: "findSubTag errorReply ''error'' =
     Some (Element ''error'' [(''type'', ''cancel'')] [Element ''item-not-found'' [] []])"
    by (simp add: findSubTag_def errorReply_def)
  from structured_error_capture[where e = errorReply and X = exampleCtx and t = ?t
         and cl = exampleClient and ns = "c_streamBaseNS exampleClient"] 1 2
  obtain t' where t': "setErrorE exampleCtx errorReply ?t = Some t'"
     "d_error t' = Some (fromXml exampleCtx (Element ''error'' [(''type'', ''cancel'')] [Element ''item-not-found'' [] []]) (c_streamBaseNS exampleClient) Error_default)"
    by auto
  have 3: "d_error t' = Some Error_default" using t'(2) by (simp add: exampleCtx_def)
  have 4: "errorType t' = 1 \<and> errorCondition t' = 21"
    using structured_error_capture[where t = t' and e = errorReply and X = exampleCtx] 3
    by (simp add: Error_default_def Error_new_def)
  have 5: "getStanzaErrorFromElement exampleCtx (Element ''iq'' [] []) ''jabber:client'' = None"
    using structured_error_capture[where e = "Element ''iq'' [] []" and X = exampleCtx
            and ns = "''jabber:client''"]
    by simp
  from 1 2 t'(1) 3 4 5 show ?thesis by blast
qed

section \<open>Exactly one completion\<close>

lemma invokeAll_done_filter:
  "d_done t \<Longrightarrow> invokeAll X cs t = invokeAll X' (filter (\<lambda>c. \<not> isSetCall c) cs) t"
proof (induction cs arbitrary: t)
  case Nil
  then show ?case by simp
next
  case (Cons c cs)
  show ?case
  proof (cases "isSetCall c")
    case True
    with Cons show ?thesis by (simp add: set_call_when_done)
  next
    case False
    from invoke_done_ctx[OF Cons.prems, of X c X'] obtain t' where
      t': "invoke X c t = Some t'" "d_done t'" by blast
    from invoke_done_ctx[OF Cons.prems, of X c X'] t'(1) have "invoke X' c t = Some t'" by simp
    note t' this
    with False Cons.IH[of t'] show ?thesis by simp
  qed
qed


lemma reentrant_set_calls_ignored:
  "Task_done (X\<lparr>slots := filter (\<lambda>c. \<not> isSetCall c) (slots X)\<rparr>) t = Task_done X t"
proof (cases "d_done t \<or> d_insig t")
  case True
  then show ?thesis by (simp add: Task_done.simps)
next
  case False
  let ?X' = "X\<lparr>slots := filter (\<lambda>c. \<not> isSetCall c) (slots X)\<rparr>"
  have "finished ?X' u = finished X u" if "d_done u" for u
    using that invokeAll_done_filter[of "emit Finished u" X "slots X" ?X']
    by (simp add: finished.simps emit_def)
  then show ?thesis
    by (simp add: Task_done.simps[of X t] Task_done.simps[of ?X' t] Let_def)
qed

lemma invoke_when_done:
  "d_done t \<Longrightarrow>
   \<exists>t'. invoke X c t = Some t' \<and> d_done t' \<and> outcome t' = outcome t \<and> fired t' = fired t"
  by (cases c)
     (auto simp: go_def onGo_def emit_def safeDelete_def onDisconnect_def Let_def
        setSuccess.simps setErrorE.simps setError.simps Task_done.simps
        outcome_def success_def statusCode_def statusString_def fired_def)

lemma invokeAll_when_done:
  "d_done t \<Longrightarrow>
   \<exists>t'. invokeAll X cs t = Some t' \<and> d_done t' \<and> outcome t' = outcome t \<and> fired t' = fired t"
proof (induction cs arbitrary: t)
  case Nil
  then show ?case by simp
next
  case (Cons c cs)
  from invoke_when_done[OF Cons.prems, of X c] obtain t1 where
    1: "invoke X c t = Some t1" "d_done t1" "outcome t1 = outcome t" "fired t1 = fired t"
    by blast
  from Cons.IH[OF 1(2)] obtain t2 where
    "invokeAll X cs t1 = Some t2" "d_done t2" "outcome t2 = outcome t1" "fired t2 = fired t1"
    by blast
  with 1 show ?case by simp
qed

lemma fired_unchanged:
  "fired (go a t) = fired t" "fired (safeDelete t) = fired t" "fired (onDisconnect t) = fired t"
  by (simp_all add: fired_def go_def onGo_def safeDelete_def onDisconnect_def emit_def Let_def)

lemma once_inv_invoke:
  assumes "once_inv t" "invoke X c t = Some t'"
  shows "once_inv t'"
proof (cases "d_done t")
  case True
  with invoke_when_done[OF True, of X c] assms task_inv_invoke[of t X c t'] show ?thesis
    by (auto simp: once_inv_def)
next
  case False
  from assms(1) have inv: "task_inv t" and f0: "fired t = 0" using False
    by (simp_all add: once_inv_def)
  have ti: "task_inv t'" using task_inv_invoke[OF inv assms(2)] .
  have done_case: "once_inv t'" if "completes X u t'" "fired u = 0" for u
    using that completes_fired[OF that(1)] ti by (simp add: once_inv_def completes_def)
  show ?thesis
  proof (cases c)
    case (Go a)
    with assms(2) False f0 ti show ?thesis
      by (auto simp: once_inv_def go_fields fired_unchanged)
  next
    case SafeDelete
    with assms(2) False f0 ti show ?thesis
      by (auto simp: once_inv_def safeDelete_fields fired_unchanged)
  next
    case OnDisconnect
    with assms(2) False f0 ti show ?thesis
      by (auto simp: once_inv_def onDisconnect_fields fired_unchanged)
  next
    case (SetSuccess code str)
    with assms(2) f0 show ?thesis
      using setSuccess_completes[OF inv False, of X code str]
      by (auto intro!: done_case simp: fired_def)
  next
    case (SetErrorElem e)
    show ?thesis
    proof (cases "d_client t")
      case None
      with assms(2) SetErrorElem False show ?thesis by (simp add: setErrorE.simps)
    next
      case (Some cl)
      with assms(2) SetErrorElem f0 show ?thesis
        using setErrorE_completes[OF inv False Some, of X e]
        by (auto intro!: done_case simp: fired_def)
    qed
  next
    case (SetError code str)
    with assms(2) f0 show ?thesis
      using setError_completes[OF inv False, of X code str]
      by (auto intro!: done_case simp: fired_def)
  next
    case ClientDisconnected
    with assms(2) False f0 ti show ?thesis
      by (auto simp: once_inv_def onDisconnect_fields fired_unchanged)
  next
    case Done
    with assms(2) False inv f0 show ?thesis
      using Task_done_cases[of t X] by (auto intro!: done_case simp: task_inv_def)
  qed
qed

lemma once_inv_invokeAll:
  "once_inv t \<Longrightarrow> invokeAll X cs t = Some t' \<Longrightarrow> once_inv t'"
  by (induction cs arbitrary: t) (auto split: option.splits dest: once_inv_invoke)

lemma once_inv_root: "once_inv (Task_root parent junk)"
  by (simp add: once_inv_def task_inv_def Task_root_def init_def fired_def)

lemma fired_at_most_once:
  "invokeAll X cs (Task_root parent junk) = Some u \<Longrightarrow> fired u = (if d_done u then 1 else 0)"
  using once_inv_invokeAll[OF once_inv_root, of X cs parent junk u] by (simp add: once_inv_def)


lemma first_set_call:
  assumes "task_inv t" and "isSetCall c0"
    and "(\<exists>e. c0 = SetErrorElem e) \<longrightarrow> d_client t \<noteq> None"
  shows "\<exists>t1. invoke X c0 t = Some t1 \<and> d_done t1 \<and>
           (d_done t \<longrightarrow> t1 = t) \<and>
           (\<not> d_done t \<longrightarrow> fired t1 = Suc (fired t) \<and>
              (\<forall>code str. c0 = SetSuccess code str \<longrightarrow> outcome t1 = (True, code, str, None)) \<and>
              (\<forall>code str. c0 = SetError code str \<longrightarrow> outcome t1 = (False, code, str, None)) \<and>
              (\<forall>e cl. c0 = SetErrorElem e \<and> d_client t = Some cl \<longrightarrow>
                 outcome t1 =
                   (False,
                    fst (getErrorFromElement X e (c_streamBaseNS cl) (d_statusCode t, d_statusString t)),
                    snd (getErrorFromElement X e (c_streamBaseNS cl) (d_statusCode t, d_statusString t)),
                    getStanzaErrorFromElement X e (c_streamBaseNS cl))))"
proof (cases "d_done t")
  case True
  with assms(2) show ?thesis by (simp add: set_call_when_done)
next
  case False
  with assms(1) have noerr: "d_error t = None" by (simp add: task_inv_def)
  from assms(2) show ?thesis
  proof (cases c0)
    case (SetSuccess code str)
    from setSuccess_completes[OF assms(1) False, of X code str] obtain t1 where
      t1: "setSuccess X code str t = Some t1"
          "completes X (t\<lparr>d_success := True, d_statusCode := code, d_statusString := str\<rparr>) t1"
      by blast
    have "fired t1 = Suc (fired t)" using completes_fired[OF t1(2)] by (simp add: fired_def)
    moreover have "d_done t1" "outcome t1 = (True, code, str, None)"
      using t1(2) noerr
      by (simp_all add: completes_def outcome_def success_def statusCode_def statusString_def)
    ultimately show ?thesis using t1(1) SetSuccess False by simp
  next
    case (SetError code str)
    from setError_completes[OF assms(1) False, of X code str] obtain t1 where
      t1: "setError X code str t = Some t1"
          "completes X (t\<lparr>d_success := False, d_statusCode := code, d_statusString := str\<rparr>) t1"
      by blast
    have "fired t1 = Suc (fired t)" using completes_fired[OF t1(2)] by (simp add: fired_def)
    moreover have "d_done t1" "outcome t1 = (False, code, str, None)"
      using t1(2) noerr
      by (simp_all add: completes_def outcome_def success_def statusCode_def statusString_def)
    ultimately show ?thesis using t1(1) SetError False by simp
  next
    case (SetErrorElem e)
    with assms(3) obtain cl where cl: "d_client t = Some cl" by auto
    let ?r = "getErrorFromElement X e (c_streamBaseNS cl) (d_statusCode t, d_statusString t)"
    from setErrorE_completes[OF assms(1) False cl, of X e] obtain t1 where
      t1: "setErrorE X e t = Some t1"
          "completes X (t\<lparr>d_success := False, d_statusCode := fst ?r, d_statusString := snd ?r,
                d_error := getStanzaErrorFromElement X e (c_streamBaseNS cl)\<rparr>) t1"
      by blast
    have "fired t1 = Suc (fired t)" using completes_fired[OF t1(2)] by (simp add: fired_def)
    moreover have "d_done t1"
      "outcome t1 = (False, fst ?r, snd ?r, getStanzaErrorFromElement X e (c_streamBaseNS cl))"
      using t1(2)
      by (simp_all add: completes_def outcome_def success_def statusCode_def statusString_def)
    ultimately show ?thesis using t1(1) SetErrorElem False cl by simp
  qed simp_all
qed

text \<open>
  C1. Take any task, a first call \<open>c0\<close> of \<^verbatim>\<open>setSuccess\<close> or one of the two
  \<^verbatim>\<open>setError\<close>s, any later calls \<open>cs\<close> of any methods, and any slots connected to
  \<^verbatim>\<open>finished()\<close>. All calls return. If the task was already done, the first call changes
  nothing. Otherwise the task is done afterwards, \<^verbatim>\<open>finished()\<close> has been emitted exactly
  once more, and success flag, status code, status string and structured error are those of
  the first call. The later calls change neither these values nor the number of emissions,
  and later calls of \<^verbatim>\<open>setSuccess\<close> and \<^verbatim>\<open>setError\<close> change nothing at all. Calls of
  \<^verbatim>\<open>setSuccess\<close> or \<^verbatim>\<open>setError\<close> made by the slots from inside the signal change
  nothing either: removing them from the slots gives the same result. Whatever is called on
  a new task, \<^verbatim>\<open>finished()\<close> has been emitted once if the task is done and not at all
  otherwise.
\<close>

theorem first_completion_wins:
  "(task_inv t \<and> isSetCall c0 \<and> ((\<exists>e. c0 = SetErrorElem e) \<longrightarrow> d_client t \<noteq> None) \<longrightarrow>
     (\<exists>t1 tn. invoke X c0 t = Some t1 \<and> invokeAll X cs t1 = Some tn \<and>
        outcome tn = outcome t1 \<and> fired tn = fired t1 \<and>
        ((\<forall>c \<in> set cs. isSetCall c) \<longrightarrow> tn = t1) \<and>
        (d_done t \<longrightarrow> t1 = t) \<and>
        (\<not> d_done t \<longrightarrow> d_done t1 \<and> fired t1 = Suc (fired t) \<and>
           (\<forall>code str. c0 = SetSuccess code str \<longrightarrow> outcome t1 = (True, code, str, None)) \<and>
           (\<forall>code str. c0 = SetError code str \<longrightarrow> outcome t1 = (False, code, str, None)) \<and>
           (\<forall>e cl. c0 = SetErrorElem e \<and> d_client t = Some cl \<longrightarrow>
              outcome t1 =
                (False,
                 fst (getErrorFromElement X e (c_streamBaseNS cl) (d_statusCode t, d_statusString t)),
                 snd (getErrorFromElement X e (c_streamBaseNS cl) (d_statusCode t, d_statusString t)),
                 getStanzaErrorFromElement X e (c_streamBaseNS cl)))))) \<and>
   Task_done (X\<lparr>slots := filter (\<lambda>c. \<not> isSetCall c) (slots X)\<rparr>) t = Task_done X t \<and>
   (invokeAll X calls (Task_root parent junk) = Some u \<longrightarrow> fired u = (if d_done u then 1 else 0))"
proof (intro conjI impI)
  assume a: "task_inv t \<and> isSetCall c0 \<and> ((\<exists>e. c0 = SetErrorElem e) \<longrightarrow> d_client t \<noteq> None)"
  from first_set_call[of t c0 X] a obtain t1 where
    t1: "invoke X c0 t = Some t1" "d_done t1" "d_done t \<longrightarrow> t1 = t"
      "\<not> d_done t \<longrightarrow> fired t1 = Suc (fired t) \<and>
         (\<forall>code str. c0 = SetSuccess code str \<longrightarrow> outcome t1 = (True, code, str, None)) \<and>
         (\<forall>code str. c0 = SetError code str \<longrightarrow> outcome t1 = (False, code, str, None)) \<and>
         (\<forall>e cl. c0 = SetErrorElem e \<and> d_client t = Some cl \<longrightarrow>
            outcome t1 =
              (False,
               fst (getErrorFromElement X e (c_streamBaseNS cl) (d_statusCode t, d_statusString t)),
               snd (getErrorFromElement X e (c_streamBaseNS cl) (d_statusCode t, d_statusString t)),
               getStanzaErrorFromElement X e (c_streamBaseNS cl)))"
    by blast
  from invokeAll_when_done[OF t1(2), of X cs] obtain tn where
    tn: "invokeAll X cs t1 = Some tn" "outcome tn = outcome t1" "fired tn = fired t1" by blast
  have "(\<forall>c \<in> set cs. isSetCall c) \<longrightarrow> tn = t1"
    using set_calls_when_done[OF t1(2), of cs X] tn(1) by auto
  with t1 tn show "\<exists>t1 tn. invoke X c0 t = Some t1 \<and> invokeAll X cs t1 = Some tn \<and>
        outcome tn = outcome t1 \<and> fired tn = fired t1 \<and>
        ((\<forall>c \<in> set cs. isSetCall c) \<longrightarrow> tn = t1) \<and>
        (d_done t \<longrightarrow> t1 = t) \<and>
        (\<not> d_done t \<longrightarrow> d_done t1 \<and> fired t1 = Suc (fired t) \<and>
           (\<forall>code str. c0 = SetSuccess code str \<longrightarrow> outcome t1 = (True, code, str, None)) \<and>
           (\<forall>code str. c0 = SetError code str \<longrightarrow> outcome t1 = (False, code, str, None)) \<and>
           (\<forall>e cl. c0 = SetErrorElem e \<and> d_client t = Some cl \<longrightarrow>
              outcome t1 =
                (False,
                 fst (getErrorFromElement X e (c_streamBaseNS cl) (d_statusCode t, d_statusString t)),
                 snd (getErrorFromElement X e (c_streamBaseNS cl) (d_statusCode t, d_statusString t)),
                 getStanzaErrorFromElement X e (c_streamBaseNS cl))))"
    by (intro exI[of _ t1] exI[of _ tn]) simp
next
  show "Task_done (X\<lparr>slots := filter (\<lambda>c. \<not> isSetCall c) (slots X)\<rparr>) t = Task_done X t"
    by (rule reentrant_set_calls_ignored)
next
  assume "invokeAll X calls (Task_root parent junk) = Some u"
  then show "fired u = (if d_done u then 1 else 0)" by (rule fired_at_most_once)
qed

theorem first_completion_wins_witness:
  "task_inv (init 9) \<and> isSetCall (SetError 404 ''nope'') \<and>
   invoke exampleCtx (SetError 404 ''nope'') (init 9) =
     Some ((init 9)\<lparr>d_statusCode := 404, d_statusString := ''nope'', d_done := True,
             d_deleteme := True, trace := [Finished, DeleteSingle]\<rparr>) \<and>
   invokeAll exampleCtx [SetSuccess 0 [], SetErrorElem errorReply, SetError 1 ''again'']
       ((init 9)\<lparr>d_statusCode := 404, d_statusString := ''nope'', d_done := True,
             d_deleteme := True, trace := [Finished, DeleteSingle]\<rparr>) =
     Some ((init 9)\<lparr>d_statusCode := 404, d_statusString := ''nope'', d_done := True,
             d_deleteme := True, trace := [Finished, DeleteSingle]\<rparr>) \<and>
   outcome ((init 9)\<lparr>d_statusCode := 404, d_statusString := ''nope'', d_done := True,
             d_deleteme := True, trace := [Finished, DeleteSingle]\<rparr>) = (False, 404, ''nope'', None) \<and>
   fired ((init 9)\<lparr>d_statusCode := 404, d_statusString := ''nope'', d_done := True,
             d_deleteme := True, trace := [Finished, DeleteSingle]\<rparr>) = 1"
proof -
  let ?t1 = "(init 9)\<lparr>d_statusCode := 404, d_statusString := ''nope'', d_done := True,
             d_deleteme := True, trace := [Finished, DeleteSingle]\<rparr>"
  have a: "task_inv (init 9)" "isSetCall (SetError 404 ''nope'')" "\<not> d_done (init 9)"
    by (simp_all add: task_inv_def init_def)
  have b: "invoke exampleCtx (SetError 404 ''nope'') (init 9) = Some ?t1"
    by (simp add: init_def exampleCtx_def setError.simps Task_done.simps finished.simps
          safeDelete_def emit_def setSuccess.simps Let_def)
  from first_completion_wins[of "init 9" "SetError 404 ''nope''" exampleCtx
         "[SetSuccess 0 [], SetErrorElem errorReply, SetError 1 ''again'']"] a b
  have "invokeAll exampleCtx [SetSuccess 0 [], SetErrorElem errorReply, SetError 1 ''again''] ?t1
          = Some ?t1 \<and> outcome ?t1 = (False, 404, ''nope'', None) \<and> fired ?t1 = Suc (fired (init 9))"
    by (auto simp: init_def)
  then show ?thesis using a b by (simp add: fired_def init_def)
qed


section \<open>Deferred deletion\<close>





lemma timers_fields:
  "timers (go a t) = timers t" "timers (safeDelete t) = timers t"
  "timers t \<le> timers (onDisconnect t)"
  by (simp_all add: go_def onGo_def safeDelete_def onDisconnect_def emit_def Let_def)

lemma completing_is_done:
  assumes "\<not> d_done t" "completing c" "invoke X c t = Some t'"
  shows "\<exists>u. Task_done X u = Some t' \<and> d_insig u = d_insig t \<and> \<not> d_done u \<and>
           d_deleteme u = d_deleteme t \<and> d_autoDelete u = d_autoDelete t \<and>
           trace u = trace t \<and> timers u = timers t"
proof (cases c)
  case (SetSuccess code str)
  with assms show ?thesis
    by (intro exI[of _ "t\<lparr>d_success := True, d_statusCode := code, d_statusString := str\<rparr>"])
       (simp add: setSuccess.simps)
next
  case (SetError code str)
  with assms show ?thesis
    by (intro exI[of _ "t\<lparr>d_success := False, d_statusCode := code, d_statusString := str\<rparr>"])
       (simp add: setError.simps)
next
  case (SetErrorElem e)
  show ?thesis
  proof (cases "d_client t")
    case None
    with assms SetErrorElem show ?thesis by (simp add: setErrorE.simps)
  next
    case (Some cl)
    let ?r = "getErrorFromElement X e (c_streamBaseNS cl) (d_statusCode t, d_statusString t)"
    from assms SetErrorElem Some show ?thesis
      by (intro exI[of _ "t\<lparr>d_success := False, d_statusCode := fst ?r, d_statusString := snd ?r,
                d_error := getStanzaErrorFromElement X e (c_streamBaseNS cl)\<rparr>"])
         (simp add: setErrorE.simps Let_def split_beta)
  qed
next
  case Done
  with assms show ?thesis by (intro exI[of _ t]) simp
qed (use assms in simp_all)












section \<open>Disconnection and calls before the timer fires\<close>

lemma outcome_fields:
  "outcome (go a t) = outcome t" "outcome (safeDelete t) = outcome t"
  "\<not> d_done t \<Longrightarrow> outcome (onDisconnect t) = (False, ErrDisc, ''Disconnected'', d_error t)"
  by (simp_all add: outcome_def success_def statusCode_def statusString_def go_def onGo_def
        safeDelete_def onDisconnect_def emit_def tr_def Let_def)

lemma timers_mono:
  assumes "invoke X c t = Some t'"
  shows "timers t \<le> timers t'"
proof (cases "completing c")
  case True
  show ?thesis
  proof (cases "d_done t")
    case dn: True
    have "invoke X c t = Some t"
      using True dn
      by (cases c) (simp_all add: setSuccess.simps setErrorE.simps setError.simps Task_done.simps)
    with assms show ?thesis by simp
  next
    case False
    from completing_is_done[OF False True assms] obtain u where
      u: "Task_done X u = Some t'" "timers u = timers t" by blast
    with Task_done_cases[of u X] show ?thesis by (auto simp: completes_def)
  qed
next
  case False
  with assms show ?thesis
    using timers_fields(3)[of t] by (cases c) (auto simp: timers_fields)
qed

lemma not_completing_not_done:
  "\<not> d_done t \<Longrightarrow> \<not> completing c \<Longrightarrow> invoke X c t = Some t' \<Longrightarrow> \<not> d_done t'"
  by (cases c) (auto simp: go_fields safeDelete_fields onDisconnect_fields)

lemma not_completing_all_not_done:
  "\<not> d_done t \<Longrightarrow> \<forall>c \<in> set cs. \<not> completing c \<Longrightarrow> invokeAll X cs t = Some t' \<Longrightarrow>
   \<not> d_done t'"
proof (induction cs arbitrary: t)
  case Nil
  then show ?case by simp
next
  case (Cons c cs)
  from Cons.prems(3) obtain v where
    v: "invoke X c t = Some v" "invokeAll X cs v = Some t'" by (auto split: option.splits)
  from Cons.prems(2) have "\<not> completing c" "\<forall>c \<in> set cs. \<not> completing c" by auto
  with not_completing_not_done[OF Cons.prems(1) _ v(1)] Cons.IH[of v] v(2) show ?case by blast
qed

lemma completing_makes_done:
  assumes "task_inv t" "completing c" "invoke X c t = Some t'"
  shows "d_done t'"
proof (cases "d_done t")
  case True
  then show ?thesis using invoke_when_done[OF True, of X c] assms(3) by auto
next
  case False
  with assms(1) have ni: "\<not> d_insig t" by (simp add: task_inv_def)
  from completing_is_done[OF False assms(2,3)] obtain u where
    "Task_done X u = Some t'" "d_insig u = d_insig t" "\<not> d_done u" by blast
  with ni Task_done_cases[of u X] show ?thesis by (auto simp: completes_def)
qed

lemma disc_inv_invoke:
  assumes "disc_inv t" "invoke X c t = Some t'"
  shows "disc_inv t'"
proof -
  from assms(1) have ti: "task_inv t" and tm: "0 < timers t"
    and oc: "\<not> d_done t \<longrightarrow> outcome t = disconnected" by (simp_all add: disc_inv_def)
  have 1: "task_inv t'" using task_inv_invoke[OF ti assms(2)] .
  have 2: "0 < timers t'" using timers_mono[OF assms(2)] tm by simp
  have 3: "\<not> d_done t' \<longrightarrow> outcome t' = disconnected"
  proof (cases "d_done t")
    case True
    then show ?thesis using invoke_when_done[OF True, of X c] assms(2) by auto
  next
    case False
    with ti have ne: "d_error t = None" by (simp add: task_inv_def)
    show ?thesis
    proof (cases "completing c")
      case True
      then show ?thesis using completing_makes_done[OF ti True assms(2)] by simp
    next
      case nc: False
      with assms(2) False oc ne show ?thesis
        by (cases c) (auto simp: outcome_fields disconnected_def)
    qed
  qed
  from 1 2 3 show ?thesis by (simp add: disc_inv_def)
qed

lemma disc_inv_invokeAll:
  "disc_inv t \<Longrightarrow> invokeAll X cs t = Some t' \<Longrightarrow> disc_inv t'"
proof (induction cs arbitrary: t)
  case Nil
  then show ?case by simp
next
  case (Cons c cs)
  from Cons.prems(2) obtain v where
    v: "invoke X c t = Some v" "invokeAll X cs v = Some t'" by (auto split: option.splits)
  from disc_inv_invoke[OF Cons.prems(1) v(1)] Cons.IH[of v] v(2) show ?case by blast
qed

lemma disc_inv_onDisconnect:
  assumes "task_inv t" "\<not> d_done t"
  shows "disc_inv (onDisconnect t)"
proof -
  from assms have ne: "d_error t = None" by (simp add: task_inv_def)
  have "task_inv (onDisconnect t)"
    using task_inv_invoke[OF assms(1), of X OnDisconnect "onDisconnect t"] by simp
  moreover have "0 < timers (onDisconnect t)"
    using assms(2) by (simp add: onDisconnect_def Let_def)
  moreover have "outcome (onDisconnect t) = disconnected"
    using assms(2) ne by (simp add: outcome_fields disconnected_def)
  ultimately show ?thesis by (simp add: disc_inv_def)
qed

lemma timer_after_disconnect:
  assumes "disc_inv v"
  shows "\<exists>w. timerEvent X v = Some w \<and> d_done w \<and>
           (\<not> d_done v \<longrightarrow> outcome w = disconnected \<and> fired w = Suc (fired v)) \<and>
           (d_done v \<longrightarrow> outcome w = outcome v \<and> fired w = fired v \<and> trace w = trace v)"
proof -
  from assms obtain n where n: "timers v = Suc n" by (cases "timers v") (auto simp: disc_inv_def)
  let ?v = "v\<lparr>timers := n\<rparr>"
  have te: "timerEvent X v = Task_done X ?v" using n by (simp add: timerEvent_def)
  show ?thesis
  proof (cases "d_done v")
    case True
    then have "Task_done X ?v = Some ?v" by (simp add: Task_done.simps)
    with te True show ?thesis
      by (simp add: outcome_def success_def statusCode_def statusString_def fired_def)
  next
    case False
    with assms have ni: "\<not> d_insig v" and oc: "outcome v = disconnected"
      by (auto simp: disc_inv_def task_inv_def)
    from False ni Task_done_completes[of ?v X] obtain w where
      w: "Task_done X ?v = Some w" "completes X ?v w" by auto
    have "fired w = Suc (fired v)" using completes_fired[OF w(2)] by (simp add: fired_def)
    moreover have "outcome w = disconnected"
      using w(2) oc
      by (simp add: completes_def outcome_def success_def statusCode_def statusString_def)
    moreover have "d_done w" using w(2) by (simp add: completes_def)
    ultimately show ?thesis using te w(1) False by simp
  qed
qed

lemma disconnect_calls_timer:
  assumes "task_inv t" "\<not> d_done t" "invokeAll X mid (onDisconnect t) = Some v"
  shows "\<exists>w. timerEvent X v = Some w \<and> d_done w \<and>
           (\<not> d_done v \<longrightarrow> outcome w = disconnected \<and> fired w = Suc (fired v)) \<and>
           (d_done v \<longrightarrow> outcome w = outcome v \<and> fired w = fired v \<and> trace w = trace v)"
  using timer_after_disconnect[OF disc_inv_invokeAll[OF disc_inv_onDisconnect[OF assms(1,2)] assms(3)]] .

lemma setSuccess_before_timer:
  assumes "task_inv t" "\<not> d_done t"
  shows "\<exists>v w. invoke X (SetSuccess k str) (onDisconnect t) = Some v \<and>
           timerEvent X v = Some w \<and> d_done w \<and> outcome w = (True, k, str, None) \<and>
           fired w = Suc (fired t)"
proof -
  let ?u = "onDisconnect t"
  have di: "disc_inv ?u" using disc_inv_onDisconnect[OF assms] .
  then have ti: "task_inv ?u" by (simp add: disc_inv_def)
  have nd: "\<not> d_done ?u" using assms(2) by (simp add: onDisconnect_fields)
  from first_set_call[OF ti, of "SetSuccess k str" X] nd obtain v where
    v: "invoke X (SetSuccess k str) ?u = Some v" "d_done v" "fired v = Suc (fired ?u)"
       "outcome v = (True, k, str, None)"
    by auto
  from timer_after_disconnect[OF disc_inv_invoke[OF di v(1)], of X] v(2) obtain w where
    "timerEvent X v = Some w" "d_done w" "outcome w = outcome v" "fired w = fired v" by auto
  with v show ?thesis by (simp add: fired_unchanged)
qed


text \<open>
  C6, as stated, does not hold. The claim lets every task that is not done at the disconnect
  end up done with the error outcome "Disconnected". \<^verbatim>\<open>onDisconnect()\<close> leaves the task not
  done until the timer fires, so a \<^verbatim>\<open>setSuccess\<close> that arrives first completes it with its
  own outcome, and the \<^verbatim>\<open>done()\<close> of the timer then returns at once.
\<close>

theorem setSuccess_before_timer_wins:
  "\<not> d_done (Task_root None 5) \<and>
   invoke plainCtx ClientDisconnected (Task_root None 5) =
     Some ((Task_root None 5)\<lparr>d_statusCode := 0, d_statusString := ''Disconnected'',
             timers := 1\<rparr>) \<and>
   invoke plainCtx (SetSuccess 3 ''won'')
       ((Task_root None 5)\<lparr>d_statusCode := 0, d_statusString := ''Disconnected'', timers := 1\<rparr>) =
     Some ((Task_root None 5)\<lparr>d_success := True, d_statusCode := 3, d_statusString := ''won'',
             d_done := True, timers := 1, trace := [Finished]\<rparr>) \<and>
   timerEvent plainCtx
       ((Task_root None 5)\<lparr>d_success := True, d_statusCode := 3, d_statusString := ''won'',
             d_done := True, timers := 1, trace := [Finished]\<rparr>) =
     Some ((Task_root None 5)\<lparr>d_success := True, d_statusCode := 3, d_statusString := ''won'',
             d_done := True, timers := 0, trace := [Finished]\<rparr>) \<and>
   outcome ((Task_root None 5)\<lparr>d_success := True, d_statusCode := 3, d_statusString := ''won'',
             d_done := True, timers := 0, trace := [Finished]\<rparr>) = (True, 3, ''won'', None)"
  by (simp add: Task_root_def init_def plainCtx_def onDisconnect_def tr_def ErrDisc_def Let_def
        setSuccess.simps Task_done.simps finished.simps emit_def timerEvent_def outcome_def
        success_def statusCode_def statusString_def)

text \<open>
  C6, amended. When the connection disconnects, the callback \<^verbatim>\<open>clientDisconnected()\<close> runs
  \<^verbatim>\<open>onDisconnect()\<close>. On a task that is already done it changes nothing. On a task that
  is not done it records the error outcome with the status "Disconnected" and arms a
  zero-delay timer, and nothing more: the task is still not done when the callback returns,
  and no signal and no destruction has happened (the trace is unchanged). When the timer
  fires on a later turn, whatever was called in between: if the task is still not done, which
  is so when none of \<^verbatim>\<open>setSuccess\<close>, \<^verbatim>\<open>setError\<close> and \<^verbatim>\<open>done()\<close> was called, it becomes
  done with the outcome "Disconnected" and \<^verbatim>\<open>finished()\<close> is emitted once (and the task is
  destroyed then if deletion was asked for); if the task is done already, the timer changes
  neither its outcome nor its trace. In particular a \<^verbatim>\<open>setSuccess\<close> before the timer
  completes the task with its own values.
\<close>

theorem disconnect_completes_on_later_turn:
  "invoke X ClientDisconnected t = Some (onDisconnect t) \<and>
   (d_done t \<longrightarrow> onDisconnect t = t) \<and>
   (\<not> d_done t \<longrightarrow>
      \<not> d_done (onDisconnect t) \<and> trace (onDisconnect t) = trace t \<and>
      fired (onDisconnect t) = fired t \<and> destroyed (onDisconnect t) = destroyed t \<and>
      timers (onDisconnect t) = Suc (timers t) \<and>
      \<not> success (onDisconnect t) \<and> statusCode (onDisconnect t) = ErrDisc \<and>
      statusString (onDisconnect t) = ''Disconnected'') \<and>
   (task_inv t \<and> \<not> d_done t \<longrightarrow>
      (\<exists>t'. timerEvent X (onDisconnect t) = Some t' \<and> d_done t' \<and> \<not> success t' \<and>
         statusCode t' = ErrDisc \<and> statusString t' = ''Disconnected'' \<and>
         fired t' = Suc (fired t) \<and> timers t' = timers t \<and>
         destroyed t' = destroyed t +
           (if d_deleteme t \<or> d_autoDelete t \<or> SafeDelete \<in> set (slots X) then 1 else 0))) \<and>
   (task_inv t \<and> \<not> d_done t \<and> invokeAll X mid (onDisconnect t) = Some v \<longrightarrow>
      (\<exists>w. timerEvent X v = Some w \<and> d_done w \<and>
         (\<not> d_done v \<longrightarrow>
            outcome w = (False, ErrDisc, ''Disconnected'', None) \<and> fired w = Suc (fired v)) \<and>
         (d_done v \<longrightarrow> outcome w = outcome v \<and> fired w = fired v \<and> trace w = trace v))) \<and>
   (\<not> d_done t \<and> (\<forall>c \<in> set mid. \<not> completing c) \<and>
    invokeAll X mid (onDisconnect t) = Some v \<longrightarrow> \<not> d_done v) \<and>
   (task_inv t \<and> \<not> d_done t \<longrightarrow>
      (\<exists>v w. invoke X (SetSuccess k str) (onDisconnect t) = Some v \<and>
         timerEvent X v = Some w \<and> d_done w \<and> outcome w = (True, k, str, None) \<and>
         fired w = Suc (fired t)))"
proof (intro conjI impI)
  show "invoke X ClientDisconnected t = Some (onDisconnect t)" by simp
next
  assume "d_done t" then show "onDisconnect t = t" by (simp add: onDisconnect_def)
next
  assume "task_inv t \<and> \<not> d_done t"
  then show "\<exists>t'. timerEvent X (onDisconnect t) = Some t' \<and> d_done t' \<and> \<not> success t' \<and>
         statusCode t' = ErrDisc \<and> statusString t' = ''Disconnected'' \<and>
         fired t' = Suc (fired t) \<and> timers t' = timers t \<and>
         destroyed t' = destroyed t +
           (if d_deleteme t \<or> d_autoDelete t \<or> SafeDelete \<in> set (slots X) then 1 else 0)"
    using disconnect_then_timer[of t X] by blast
next
  assume "task_inv t \<and> \<not> d_done t \<and> invokeAll X mid (onDisconnect t) = Some v"
  then show "\<exists>w. timerEvent X v = Some w \<and> d_done w \<and>
         (\<not> d_done v \<longrightarrow>
            outcome w = (False, ErrDisc, ''Disconnected'', None) \<and> fired w = Suc (fired v)) \<and>
         (d_done v \<longrightarrow> outcome w = outcome v \<and> fired w = fired v \<and> trace w = trace v)"
    using disconnect_calls_timer[of t X mid v] by (simp add: disconnected_def)
next
  assume "\<not> d_done t \<and> (\<forall>c \<in> set mid. \<not> completing c) \<and>
    invokeAll X mid (onDisconnect t) = Some v"
  then show "\<not> d_done v"
    using not_completing_all_not_done[of "onDisconnect t" mid X v]
    by (simp add: onDisconnect_fields)
next
  assume "task_inv t \<and> \<not> d_done t"
  then show "\<exists>v w. invoke X (SetSuccess k str) (onDisconnect t) = Some v \<and>
         timerEvent X v = Some w \<and> d_done w \<and> outcome w = (True, k, str, None) \<and>
         fired w = Suc (fired t)"
    using setSuccess_before_timer[of t X k str] by blast
qed (simp_all add: onDisconnect_def Let_def tr_def success_def statusCode_def statusString_def
       fired_def destroyed_def)

theorem disconnect_completes_on_later_turn_witness:
  "task_inv (Task_root None 5) \<and> \<not> d_done (Task_root None 5) \<and>
   \<not> d_done (onDisconnect (Task_root None 5)) \<and>
   trace (onDisconnect (Task_root None 5)) = [] \<and>
   timerEvent exampleCtx (onDisconnect (Task_root None 5)) =
     Some ((Task_root None 5)\<lparr>d_done := True, d_deleteme := True, d_statusCode := 0,
             d_statusString := ''Disconnected'', trace := [Finished, DeleteSingle]\<rparr>) \<and>
   \<not> completing (Go False) \<and> \<not> completing OnDisconnect \<and>
   invokeAll plainCtx [Go False, OnDisconnect] (onDisconnect (Task_root None 5)) =
     Some ((Task_root None 5)\<lparr>d_statusCode := 0, d_statusString := ''Disconnected'',
             timers := 2, trace := [Warning]\<rparr>) \<and>
   timerEvent plainCtx ((Task_root None 5)\<lparr>d_statusCode := 0, d_statusString := ''Disconnected'',
             timers := 2, trace := [Warning]\<rparr>) =
     Some ((Task_root None 5)\<lparr>d_statusCode := 0, d_statusString := ''Disconnected'',
             d_done := True, timers := 1, trace := [Warning, Finished]\<rparr>) \<and>
   outcome ((Task_root None 5)\<lparr>d_statusCode := 0, d_statusString := ''Disconnected'',
             d_done := True, timers := 1, trace := [Warning, Finished]\<rparr>) =
     (False, ErrDisc, ''Disconnected'', None)"
proof -
  let ?t = "Task_root None 5"
  let ?v = "?t\<lparr>d_statusCode := 0, d_statusString := ''Disconnected'', timers := 2,
              trace := [Warning]\<rparr>"
  let ?w = "?t\<lparr>d_statusCode := 0, d_statusString := ''Disconnected'', d_done := True,
              timers := 1, trace := [Warning, Finished]\<rparr>"
  have h: "task_inv ?t" "\<not> d_done ?t" by (simp_all add: task_inv_def Task_root_def init_def)
  have run: "invokeAll plainCtx [Go False, OnDisconnect] (onDisconnect ?t) = Some ?v"
    by (simp add: Task_root_def init_def onDisconnect_def tr_def ErrDisc_def go_def onGo_def
          emit_def Let_def)
  have tm: "timerEvent plainCtx ?v = Some ?w"
    by (simp add: Task_root_def init_def timerEvent_def plainCtx_def Task_done.simps
          finished.simps emit_def Let_def)
  have nd: "\<not> d_done ?v"
    using disconnect_completes_on_later_turn[where t = ?t and X = plainCtx
        and mid = "[Go False, OnDisconnect]" and v = ?v] h run
    by simp
  have oc: "outcome ?w = (False, ErrDisc, ''Disconnected'', None)"
    using disconnect_completes_on_later_turn[where t = ?t and X = plainCtx
        and mid = "[Go False, OnDisconnect]" and v = ?v] h run tm nd
    by auto
  have d: "\<not> d_done (onDisconnect ?t)" "trace (onDisconnect ?t) = []"
    using disconnect_completes_on_later_turn[where t = ?t and X = exampleCtx] h
    by (simp_all add: Task_root_def init_def)
  have e: "timerEvent exampleCtx (onDisconnect ?t) =
     Some (?t\<lparr>d_done := True, d_deleteme := True, d_statusCode := 0,
             d_statusString := ''Disconnected'', trace := [Finished, DeleteSingle]\<rparr>)"
    by (simp add: Task_root_def init_def timerEvent_def onDisconnect_def Let_def tr_def
        ErrDisc_def exampleCtx_def Task_done.simps finished.simps safeDelete_def emit_def
        setSuccess.simps)
  from h run tm oc d e show ?thesis by simp
qed


section \<open>Dispatch of an incoming element\<close>

lemma Task_take_none_claims:
  "\<forall>obj \<in> set p. inherits_Task obj \<longrightarrow> \<not> fst (take_virtual x obj) \<Longrightarrow>
   Task_take x p = (False, visits x p)"
proof (induction p)
  case Nil
  then show ?case by (simp add: visits_def)
next
  case (Cons obj p)
  then have ih: "Task_take x p = (False, visits x p)" by simp
  show ?case
  proof (cases "inherits_Task obj")
    case False
    with ih show ?thesis by (simp add: visits_def)
  next
    case True
    with Cons.prems have "\<not> fst (take_virtual x obj)" by simp
    with True ih show ?thesis by (simp add: visits_def split_beta)
  qed
qed

lemma visits_append: "visits x (p @ q) = visits x p @ visits x q"
  by (simp add: visits_def)

lemma Task_take_first_claim:
  assumes "inherits_Task obj" "fst (take_virtual x obj)"
    and "\<forall>q \<in> set pre. inherits_Task q \<longrightarrow> \<not> fst (take_virtual x q)"
  shows "Task_take x (pre @ obj # post) = (True, visits x pre @ snd (take_virtual x obj))"
  using assms(3)
proof (induction pre)
  case Nil
  with assms(1,2) show ?case by (simp add: visits_def split_beta)
next
  case (Cons o' pre)
  then have ih: "Task_take x (pre @ obj # post) = (True, visits x pre @ snd (take_virtual x obj))"
    by simp
  show ?case
  proof (cases "inherits_Task o'")
    case False
    with ih show ?thesis by (simp add: visits_def)
  next
    case True
    with Cons.prems have "\<not> fst (take_virtual x o')" by simp
    with True ih show ?thesis by (simp add: visits_def split_beta)
  qed
qed

lemma Task_take_claims_iff:
  "fst (Task_take x p) = (\<exists>obj \<in> set p. inherits_Task obj \<and> fst (take_virtual x obj))"
  by (induction p) (auto simp: split_beta)

text \<open>
  C3. The base \<^verbatim>\<open>take(x)\<close> of a task with children \<open>p\<close> asks the children in
  registration order, skipping the ones that are not tasks, by calling their (virtual)
  \<^verbatim>\<open>take\<close>. If no task among the children claims \<open>x\<close> it returns false, after entering
  every one of them in order. If \<open>obj\<close> is the first task that claims \<open>x\<close>, it returns true and
  the tasks entered are those before \<open>obj\<close> and \<open>obj\<close> itself: nothing after \<open>obj\<close> is visited.
  A task with the base implementation claims nothing itself: its result is that of the scan
  of its children.
\<close>

theorem base_take_delegates_in_order:
  "((\<forall>obj \<in> set p. inherits_Task obj \<longrightarrow> \<not> fst (take_virtual x obj)) \<longrightarrow>
      Task_take x p = (False, visits x p)) \<and>
   (inherits_Task obj \<and> fst (take_virtual x obj) \<and>
    (\<forall>q \<in> set pre. inherits_Task q \<longrightarrow> \<not> fst (take_virtual x q)) \<longrightarrow>
      Task_take x (pre @ obj # post) = (True, visits x pre @ snd (take_virtual x obj))) \<and>
   (\<not> inherits_Task obj \<longrightarrow> Task_take x (obj # p) = Task_take x p) \<and>
   take_virtual x (TaskObj i None p) = (fst (Task_take x p), i # snd (Task_take x p))"
  using Task_take_none_claims[of p x] Task_take_first_claim[of obj x pre post]
  by (simp add: split_beta)

theorem base_take_delegates_in_order_witness:
  "Task_take (Element ''iq'' [] [])
     ([Other [TaskObj 9 (Some (\<lambda>x. True)) []], TaskObj 1 None [TaskObj 2 (Some (\<lambda>x. False)) []]]
      @ TaskObj 3 (Some (\<lambda>x. tagName x = ''iq'')) [] # [TaskObj 4 (Some (\<lambda>x. True)) []])
     = (True, [1, 2, 3]) \<and>
   Task_take (Element ''message'' [] [])
     [Other [TaskObj 9 (Some (\<lambda>x. True)) []], TaskObj 1 None [TaskObj 2 (Some (\<lambda>x. False)) []],
      TaskObj 3 (Some (\<lambda>x. tagName x = ''iq'')) []]
     = (False, [1, 2, 3])"
  using base_take_delegates_in_order[of
      "[Other [TaskObj 9 (Some (\<lambda>x. True)) []], TaskObj 1 None [TaskObj 2 (Some (\<lambda>x. False)) []],
        TaskObj 3 (Some (\<lambda>x. tagName x = ''iq'')) []]"
      "Element ''message'' [] []"]
    base_take_delegates_in_order[of _ "Element ''iq'' [] []"
      "TaskObj 3 (Some (\<lambda>x. tagName x = ''iq'')) []"
      "[Other [TaskObj 9 (Some (\<lambda>x. True)) []], TaskObj 1 None [TaskObj 2 (Some (\<lambda>x. False)) []]]"
      "[TaskObj 4 (Some (\<lambda>x. True)) []]"]
  by (simp add: visits_def)

section \<open>Legacy codes of stanza errors\<close>

lemma code_outside_table:
  "(err_type e, err_condition e) \<notin> set tablePairs \<Longrightarrow> code e = 0"
proof -
  assume a: "(err_type e, err_condition e) \<notin> set tablePairs"
  have "find (\<lambda>(c, ty, n). ErrorType_value ty = err_type e \<and> ErrorCond_value c = err_condition e)
          legacyCodeTable = None"
    using a unfolding find_None_iff tablePairs_def by force
  then show ?thesis by (simp add: code_def)
qed

lemma fromCode_round_trip:
  "n \<in> set tableCodes \<Longrightarrow> fst (fromCode n e) \<and> code (snd (fromCode n e)) = n"
  unfolding tableCodes_def legacyCodeTable_def fromCode_def code_def
  by (elim disjE | simp)+

text \<open>
  C9. For every code \<open>n\<close> of the legacy table, \<open>fromCode n\<close> recognises the code and
  \<open>code\<close> on the resulting error returns \<open>n\<close> again. For an error whose (type, condition)
  pair is not in the table, \<open>code\<close> returns 0.
\<close>

theorem legacy_code_round_trip:
  "(n \<in> set tableCodes \<longrightarrow> fst (fromCode n e) \<and> code (snd (fromCode n e)) = n) \<and>
   ((err_type e, err_condition e) \<notin> set tablePairs \<longrightarrow> code e = 0)"
  using fromCode_round_trip[of n e] code_outside_table[of e] by blast

theorem legacy_code_round_trip_witness:
  "404 \<in> set tableCodes \<and> fst (fromCode 404 Error_default) \<and>
   code (snd (fromCode 404 Error_default)) = 404 \<and>
   (err_type (Error_new 1 1 [] None), err_condition (Error_new 1 1 [] None)) \<notin> set tablePairs \<and>
   code (Error_new 1 1 [] None) = 0"
proof -
  have 1: "404 \<in> set tableCodes" by (simp add: tableCodes_def legacyCodeTable_def)
  have 2: "(err_type (Error_new 1 1 [] None), err_condition (Error_new 1 1 [] None)) \<notin> set tablePairs"
    by (simp add: tablePairs_def legacyCodeTable_def Error_new_def)
  from 1 2 legacy_code_round_trip[of 404 Error_default]
    legacy_code_round_trip[of 404 "Error_new 1 1 [] None"]
  show ?thesis by blast
qed


section \<open>Verification of IQ replies\<close>

lemma Jid_examples:
  "Jid ''me@example.com/home'' = \<lparr>j_node = ''me'', j_domain = ''example.com'', j_resource = ''home''\<rparr>"
  "Jid ''me@example.com/work'' = \<lparr>j_node = ''me'', j_domain = ''example.com'', j_resource = ''work''\<rparr>"
  "Jid ''me@example.com'' = \<lparr>j_node = ''me'', j_domain = ''example.com'', j_resource = []\<rparr>"
  "Jid ''example.com'' = \<lparr>j_node = [], j_domain = ''example.com'', j_resource = []\<rparr>"
  "Jid ''you@elsewhere.org'' = \<lparr>j_node = ''you'', j_domain = ''elsewhere.org'', j_resource = []\<rparr>"
  "Jid [] = \<lparr>j_node = [], j_domain = [], j_resource = []\<rparr>"
  by (simp_all add: Jid_def Let_def)

text \<open>
  C4, as stated, does not hold. The claim lets a reply from our own address pass only when
  \<open>to\<close> is empty, equals our bare address or equals the server address. The code compares
  \<open>to\<close> with our address without the resources (\<^verbatim>\<open>to.compare(local, false)\<close>): a reply from
  \<^verbatim>\<open>me@example.com/home\<close>, our full address, is accepted for a request sent to our other
  resource \<^verbatim>\<open>me@example.com/work\<close>, which is neither empty, nor our bare address, nor the
  server.
\<close>

theorem own_sender_other_resource_accepted:
  "iqVerify (Task_root (Some exampleClient) 0)
     (Element ''iq'' [(''from'', ''me@example.com/home''), (''id'', ''q1'')] [])
     (Jid ''me@example.com/work'') ''q1'' [] = Some True \<and>
   compare
     (Jid (attribute (Element ''iq'' [(''from'', ''me@example.com/home''), (''id'', ''q1'')] [])
        ''from''))
     (c_jid exampleClient) True \<and>
   \<not> isEmpty (Jid ''me@example.com/work'') \<and>
   \<not> compare (Jid ''me@example.com/work'') (bareJid (c_jid exampleClient)) True \<and>
   \<not> compare (Jid ''me@example.com/work'') (c_host exampleClient) True"
  by (simp add: iqVerify_def Task_root_def init_def exampleClient_def Jid_examples attribute_def
        isEmpty_def compare_def bareJid_def domain_def Let_def)

text \<open>
  C4, amended. Whenever \<open>iqVerify\<close> returns true: if the sender of \<open>x\<close> is empty, then \<open>to\<close>
  is empty or equals the server address; and if the sender equals our full address or our
  bare address, then \<open>to\<close> is empty, or \<open>to\<close> equals our address up to the resource (any
  resource of ours), or \<open>to\<close> equals the server address.
\<close>

theorem iqVerify_sender_rules:
  assumes "iqVerify t x to id' xmlns = Some True" and "d_client t = Some cl"
  shows "(isEmpty (Jid (attribute x ''from'')) \<longrightarrow> isEmpty to \<or> compare to (c_host cl) True) \<and>
         (compare (Jid (attribute x ''from'')) (c_jid cl) True \<or>
          compare (Jid (attribute x ''from'')) (bareJid (c_jid cl)) True \<longrightarrow>
            isEmpty to \<or> compare to (c_jid cl) False \<or> compare to (c_host cl) True)"
  using assms
  by (auto simp: iqVerify_def Let_def compare_def bareJid_def isEmpty_def split: if_splits)

theorem iqVerify_sender_rules_witness:
  "iqVerify (Task_root (Some exampleClient) 0)
     (Element ''iq'' [(''from'', ''me@example.com''), (''id'', ''q1'')] [])
     (Jid ''me@example.com/work'') ''q1'' [] = Some True \<and>
   compare (Jid (attribute (Element ''iq'' [(''from'', ''me@example.com''), (''id'', ''q1'')] []) ''from''))
     (bareJid (c_jid exampleClient)) True \<and>
   compare (Jid ''me@example.com/work'') (c_jid exampleClient) False \<and>
   iqVerify (Task_root (Some exampleClient) 0) (Element ''iq'' [(''id'', ''q1'')] [])
     (Jid ''example.com'') ''q1'' [] = Some True \<and>
   isEmpty (Jid (attribute (Element ''iq'' [(''id'', ''q1'')] []) ''from'')) \<and>
   compare (Jid ''example.com'') (c_host exampleClient) True \<and>
   iqVerify (Task_root (Some exampleClient) 0) (Element ''iq'' [(''id'', ''q1'')] [])
     (Jid ''you@elsewhere.org'') ''q1'' [] = Some False"
proof -
  let ?t = "Task_root (Some exampleClient) 0"
  let ?x = "Element ''iq'' [(''from'', ''me@example.com''), (''id'', ''q1'')] []"
  let ?y = "Element ''iq'' [(''id'', ''q1'')] []"
  have a: "iqVerify ?t ?x (Jid ''me@example.com/work'') ''q1'' [] = Some True"
    by (simp add: iqVerify_def Task_root_def init_def exampleClient_def Jid_examples attribute_def
        isEmpty_def compare_def domain_def Let_def)
  have b: "iqVerify ?t ?y (Jid ''example.com'') ''q1'' [] = Some True"
    by (simp add: iqVerify_def Task_root_def init_def exampleClient_def Jid_examples attribute_def
        isEmpty_def compare_def domain_def Let_def)
  have c: "iqVerify ?t ?y (Jid ''you@elsewhere.org'') ''q1'' [] = Some False"
    by (simp add: iqVerify_def Task_root_def init_def exampleClient_def Jid_examples attribute_def
        isEmpty_def compare_def domain_def Let_def)
  have d: "d_client ?t = Some exampleClient" by (simp add: Task_root_def init_def)
  have e: "compare (Jid (attribute ?x ''from'')) (bareJid (c_jid exampleClient)) True"
    "isEmpty (Jid (attribute ?y ''from''))"
    by (simp_all add: exampleClient_def Jid_examples attribute_def isEmpty_def compare_def bareJid_def)
  have f: "\<not> isEmpty (Jid ''me@example.com/work'')"
     "\<not> compare (Jid ''me@example.com/work'') (c_host exampleClient) True"
     "\<not> isEmpty (Jid ''example.com'')"
    by (simp_all add: exampleClient_def Jid_examples isEmpty_def compare_def)
  from iqVerify_sender_rules[OF a d] e(1) f(1,2)
  have g: "compare (Jid ''me@example.com/work'') (c_jid exampleClient) False" by blast
  from iqVerify_sender_rules[OF b d] e(2) f(3)
  have h: "compare (Jid ''example.com'') (c_host exampleClient) True" by blast
  from a b c e g h show ?thesis by blast
qed

text \<open>
  C5, as stated, does not hold. The claim requires every sender that is neither empty nor one
  of our own addresses to equal \<open>to\<close> exactly. The code also treats a sender that equals the
  domain of our address (\<^verbatim>\<open>from.compare(local.domain(), false)\<close>) like a reply from
  ourselves: a reply from \<^verbatim>\<open>example.com\<close> to a request sent to \<^verbatim>\<open>me@example.com\<close> is
  accepted, although the sender is not empty, is not our address with or without resource,
  and differs from \<open>to\<close>.
\<close>

theorem server_domain_sender_accepted:
  "iqVerify (Task_root (Some exampleClient) 0)
     (Element ''iq'' [(''from'', ''example.com''), (''id'', ''q1'')] [])
     (Jid ''me@example.com'') ''q1'' [] = Some True \<and>
   attribute (Element ''iq'' [(''from'', ''example.com''), (''id'', ''q1'')] []) ''from''
     = ''example.com'' \<and>
   \<not> isEmpty (Jid ''example.com'') \<and>
   \<not> compare (Jid ''example.com'') (c_jid exampleClient) True \<and>
   \<not> compare (Jid ''example.com'') (bareJid (c_jid exampleClient)) True \<and>
   \<not> compare (Jid ''example.com'') (c_jid exampleClient) False \<and>
   \<not> compare (Jid ''example.com'') (Jid ''me@example.com'') True"
  by (simp add: iqVerify_def Task_root_def init_def exampleClient_def Jid_examples attribute_def
        isEmpty_def compare_def bareJid_def domain_def Let_def)

text \<open>
  C5, amended. Whenever \<open>iqVerify\<close> returns true: \<open>x\<close> is an \<^verbatim>\<open>iq\<close> element; a sender that
  is neither empty, nor equal up to the resource to our own address, nor equal up to the
  resource to the domain of our address, equals \<open>to\<close> exactly; when \<open>id\<close> is not empty, the
  \<^verbatim>\<open>id\<close> attribute of \<open>x\<close> equals it; and when \<open>xmlns\<close> is not empty, the query namespace
  of \<open>x\<close> equals it.
\<close>

theorem iqVerify_true_only_if:
  assumes "iqVerify t x to id' xmlns = Some True" and "d_client t = Some cl"
  shows "tagName x = ''iq'' \<and>
         (\<not> isEmpty (Jid (attribute x ''from'')) \<and>
          \<not> compare (Jid (attribute x ''from'')) (c_jid cl) False \<and>
          \<not> compare (Jid (attribute x ''from'')) (Jid (domain (c_jid cl))) False \<longrightarrow>
            compare (Jid (attribute x ''from'')) to True) \<and>
         (id' \<noteq> [] \<longrightarrow> attribute x ''id'' = id') \<and>
         (xmlns \<noteq> [] \<longrightarrow> queryNS x = xmlns)"
  using assms
  by (auto simp: iqVerify_def Let_def split: if_splits)

theorem iqVerify_true_only_if_witness:
  "iqVerify (Task_root (Some exampleClient) 0)
     (Element ''iq'' [(''from'', ''you@elsewhere.org''), (''id'', ''q1'')]
        [Element ''query'' [(''xmlns'', ''jabber:iq:version'')] []])
     (Jid ''you@elsewhere.org'') ''q1'' ''jabber:iq:version'' = Some True \<and>
   compare (Jid ''you@elsewhere.org'') (Jid ''you@elsewhere.org'') True \<and>
   queryNS (Element ''iq'' [(''from'', ''you@elsewhere.org''), (''id'', ''q1'')]
        [Element ''query'' [(''xmlns'', ''jabber:iq:version'')] []]) = ''jabber:iq:version'' \<and>
   iqVerify (Task_root (Some exampleClient) 0)
     (Element ''iq'' [(''from'', ''you@elsewhere.org''), (''id'', ''q1'')]
        [Element ''query'' [(''xmlns'', ''jabber:iq:version'')] []])
     (Jid ''you@elsewhere.org'') ''q2'' ''jabber:iq:version'' = Some False \<and>
   iqVerify (Task_root (Some exampleClient) 0)
     (Element ''iq'' [(''from'', ''you@elsewhere.org''), (''id'', ''q1'')]
        [Element ''query'' [(''xmlns'', ''jabber:iq:version'')] []])
     (Jid ''you@elsewhere.org'') ''q1'' ''jabber:iq:roster'' = Some False \<and>
   iqVerify (Task_root (Some exampleClient) 0)
     (Element ''message'' [(''from'', ''you@elsewhere.org''), (''id'', ''q1'')] [])
     (Jid ''you@elsewhere.org'') ''q1'' [] = Some False"
proof -
  let ?t = "Task_root (Some exampleClient) 0"
  let ?x = "Element ''iq'' [(''from'', ''you@elsewhere.org''), (''id'', ''q1'')]
        [Element ''query'' [(''xmlns'', ''jabber:iq:version'')] []]"
  have a: "iqVerify ?t ?x (Jid ''you@elsewhere.org'') ''q1'' ''jabber:iq:version'' = Some True"
    by (simp add: iqVerify_def Task_root_def init_def exampleClient_def Jid_examples attribute_def
        isEmpty_def compare_def domain_def queryNS_def findSubTag_def Let_def)
  have b: "iqVerify ?t ?x (Jid ''you@elsewhere.org'') ''q2'' ''jabber:iq:version'' = Some False"
    by (simp add: iqVerify_def Task_root_def init_def exampleClient_def Jid_examples attribute_def
        isEmpty_def compare_def domain_def queryNS_def findSubTag_def Let_def)
  have c: "iqVerify ?t ?x (Jid ''you@elsewhere.org'') ''q1'' ''jabber:iq:roster'' = Some False"
    by (simp add: iqVerify_def Task_root_def init_def exampleClient_def Jid_examples attribute_def
        isEmpty_def compare_def domain_def queryNS_def findSubTag_def Let_def)
  have d: "iqVerify ?t (Element ''message'' [(''from'', ''you@elsewhere.org''), (''id'', ''q1'')] [])
             (Jid ''you@elsewhere.org'') ''q1'' [] = Some False"
    by (simp add: iqVerify_def)
  have e: "d_client ?t = Some exampleClient" by (simp add: Task_root_def init_def)
  have f: "\<not> isEmpty (Jid (attribute ?x ''from''))"
    "\<not> compare (Jid (attribute ?x ''from'')) (c_jid exampleClient) False"
    "\<not> compare (Jid (attribute ?x ''from'')) (Jid (domain (c_jid exampleClient))) False"
    "attribute ?x ''from'' = ''you@elsewhere.org''"
    by (simp_all add: exampleClient_def Jid_examples attribute_def isEmpty_def compare_def
          domain_def)
  from iqVerify_true_only_if[OF a e] f
  have "compare (Jid ''you@elsewhere.org'') (Jid ''you@elsewhere.org'') True"
    and "queryNS ?x = ''jabber:iq:version''"
    by simp_all
  with a b c d show ?thesis by blast
qed

end
